theory Spec2Isabelle
  imports Complex_Main "HOL-Library.Word"
begin

section \<open>climate.c: per-state aggregation of tab-delimited climate records\<close>

text \<open>
  A shallow embedding of \<^verbatim>\<open>climate.c\<close>. The program reads each file with
  \<^verbatim>\<open>fgets\<close> into a buffer of 100 bytes, cuts the buffer into tokens with
  \<^verbatim>\<open>strtok(line, "\t\n")\<close>, fills a freshly allocated \<^verbatim>\<open>struct climate_info\<close>
  from the tokens and then walks the array \<^verbatim>\<open>states\<close> of \<^verbatim>\<open>NUM_STATES\<close> pointers:
  the first \<^verbatim>\<open>NULL\<close> slot receives the new struct, a slot with the same code is
  updated in place.

  Conventions of the model.
  \<^item> \<^verbatim>\<open>double\<close> and \<^verbatim>\<open>long double\<close> values are real numbers: rounding, infinities
    and NaN are outside the model. Comparisons and sums are those of the reals.
  \<^item> \<^verbatim>\<open>unsigned long num_records\<close> is a 64-bit word (it wraps around).
  \<^item> The \<^verbatim>\<open>int\<close> counters and the \<^verbatim>\<open>long int\<close> dates are integers; a conversion
    from \<^verbatim>\<open>double\<close> truncates towards zero. Signed overflow and out-of-range
    conversions (undefined in C) are outside the model.
  \<^item> \<^verbatim>\<open>atof\<close> belongs to the C library, not to the program: every function that
    calls it takes it as the parameter \<open>atof\<close>.
  \<^item> \<^verbatim>\<open>char *tokenList[9]\<close> is a list of nine optional strings, \<open>None\<close> for a
    slot that was never assigned. Reading such a slot is undefined behaviour in C; the
    model makes it the error \<open>Uninitialized_token k\<close>.
  \<^item> \<^verbatim>\<open>char code[3]\<close> receives two bytes from \<^verbatim>\<open>strncpy\<close>; the third byte is never
    written by the program and is taken to be NUL, so that the code is the string of
    the first two characters of token 0.
\<close>

subsection \<open>Data\<close>

definition NUM_STATES :: nat where
  "NUM_STATES = 50"

record climate_info =
  code :: string
  num_records :: "64 word"
  temp :: real
  humidity :: real
  max_temp :: real
  max_temp_date :: int
  min_temp :: real
  min_temp_date :: int
  lightning_strikes :: int
  snow :: int
  cloud_cover :: real
  pressure :: real

datatype error =
  Usage
  | File_open
  | Uninitialized_token nat

subsection \<open>Reading and tokenizing a line\<close>

definition TAB :: char where
  "TAB = CHR 0x09"

definition NL :: char where
  "NL = CHR 0x0A"

definition NUL :: char where
  "NUL = CHR 0x00"

definition is_delim :: "char \<Rightarrow> bool" where
  "is_delim c = (c = TAB \<or> c = NL)"

text \<open>
  \<^verbatim>\<open>fgets(line, line_sz, file)\<close> on the unread rest of the file: \<open>None\<close> at end of
  file, otherwise the bytes up to and including the first newline, at most
  \<open>line_sz - 1\<close> of them, and the rest that stays unread.
\<close>

definition fgets :: "nat \<Rightarrow> string \<Rightarrow> (string \<times> string) option" where
  "fgets line_sz file =
     (if file = [] then None
      else
        let j = length (takeWhile (\<lambda>c. c \<noteq> NL) file);
            n = (if j < length file \<and> j < line_sz - 1 then Suc j else line_sz - 1)
        in Some (take n file, drop n file))"

text \<open>The buffer as a C string: the bytes before the first NUL.\<close>

definition c_str :: "string \<Rightarrow> string" where
  "c_str buf = takeWhile (\<lambda>c. c \<noteq> NUL) buf"

text \<open>
  One call of \<^verbatim>\<open>strtok\<close> with the delimiters \<^verbatim>\<open>"\t\n"\<close> on the text that is
  left: leading delimiters are skipped; \<open>None\<close> when nothing is left; otherwise the
  token and the text after the delimiter that ended it.
\<close>

definition strtok :: "string \<Rightarrow> (string \<times> string) option" where
  "strtok s =
     (let s' = dropWhile is_delim s
      in if s' = [] then None
         else Some (takeWhile (\<lambda>c. \<not> is_delim c) s',
                    drop 1 (dropWhile (\<lambda>c. \<not> is_delim c) s')))"

text \<open>
  The loop \<^verbatim>\<open>while (token != NULL && index < 9)\<close>: \<open>token\<close> is the result of the
  last \<^verbatim>\<open>strtok\<close> call (the token and the text left after it).
\<close>

function collect_tokens ::
  "(string \<times> string) option \<Rightarrow> nat \<Rightarrow> string option list \<Rightarrow> string option list" where
  "collect_tokens token index tokenList =
     (case token of
        None \<Rightarrow> tokenList
      | Some (t, rest) \<Rightarrow>
          if index < 9
          then collect_tokens (strtok rest) (Suc index) (tokenList[index := Some t])
          else tokenList)"
  by pat_completeness auto
termination
  by (relation "measure (\<lambda>(token, index, tokenList). 9 - index)") auto

definition tokenize :: "string \<Rightarrow> string option list" where
  "tokenize line = collect_tokens (strtok (c_str line)) 0 (replicate 9 None)"

subsection \<open>Decoding the tokens into a record\<close>

text \<open>C's conversion of a floating value to an integer type: towards zero.\<close>

definition c_trunc :: "real \<Rightarrow> int" where
  "c_trunc x = (if 0 \<le> x then \<lfloor>x\<rfloor> else \<lceil>x\<rceil>)"

text \<open>
  Lines 150 to 163. The slots are read in the order 0, 1, 3, 4, 5, 6, 7, 8 (slot 2,
  the geohash, is never read); the first one that was never assigned is the error.
\<close>

definition decode_record ::
  "(string \<Rightarrow> real) \<Rightarrow> string option list \<Rightarrow> error + climate_info" where
  "decode_record atof tokenList =
     (case filter (\<lambda>k. tokenList ! k = None) [0, 1, 3, 4, 5, 6, 7, 8] of
        k # _ \<Rightarrow> Inl (Uninitialized_token k)
      | [] \<Rightarrow>
          Inr \<lparr> code = take 2 (the (tokenList ! 0)),
                num_records = 1,
                temp = atof (the (tokenList ! 8)) * 9 / 5 - 459.67,
                humidity = atof (the (tokenList ! 3)),
                max_temp = atof (the (tokenList ! 8)) * 9 / 5 - 459.67,
                max_temp_date = c_trunc (atof (the (tokenList ! 1)) / 1000),
                min_temp = atof (the (tokenList ! 8)) * 9 / 5 - 459.67,
                min_temp_date = c_trunc (atof (the (tokenList ! 1)) / 1000),
                lightning_strikes = c_trunc (atof (the (tokenList ! 6))),
                snow = c_trunc (atof (the (tokenList ! 4))),
                cloud_cover = atof (the (tokenList ! 5)),
                pressure = atof (the (tokenList ! 7)) \<rparr>)"

subsection \<open>Folding a record into the table of states\<close>

text \<open>
  Lines 176 to 194: the body of the branch that updates \<open>states[i]\<close> (here \<open>s\<close>) with
  the record \<open>state\<close> of the current line.
\<close>

definition update_state :: "climate_info \<Rightarrow> climate_info \<Rightarrow> climate_info" where
  "update_state s state =
     (let s1 = s \<lparr> num_records := num_records s + 1,
                   humidity := humidity s + humidity state,
                   snow := snow s + snow state,
                   cloud_cover := cloud_cover s + cloud_cover state,
                   lightning_strikes := lightning_strikes s + lightning_strikes state,
                   pressure := pressure s + pressure state,
                   temp := temp s + temp state \<rparr>;
          s2 = (if max_temp s1 \<le> temp state
                then s1 \<lparr> max_temp := temp state, max_temp_date := max_temp_date state \<rparr>
                else s1);
          s3 = (if min_temp s2 \<ge> temp state
                then s2 \<lparr> min_temp := temp state, min_temp_date := min_temp_date state \<rparr>
                else s2)
      in s3)"

text \<open>
  Lines 167 to 197: the loop \<^verbatim>\<open>for (int i = 0; i < num_states; i++)\<close> from index
  \<open>i\<close> on. Both branches that act end the loop (\<^verbatim>\<open>break\<close>); when the loop runs
  to \<open>num_states\<close> the record is dropped and the table stays as it is. The array is a
  list of optional records, \<open>None\<close> for \<^verbatim>\<open>NULL\<close>; \<open>main\<close> passes the size of the
  array as \<open>num_states\<close>, and every property below is stated for that case.
\<close>

function for_states ::
  "nat \<Rightarrow> nat \<Rightarrow> climate_info \<Rightarrow> climate_info option list \<Rightarrow> climate_info option list" where
  "for_states i num_states state states =
     (if i < num_states then
        (case states ! i of
           None \<Rightarrow> states[i := Some state]
         | Some s \<Rightarrow>
             if code s = code state
             then states[i := Some (update_state s state)]
             else for_states (Suc i) num_states state states)
      else states)"
  by pat_completeness auto
termination
  by (relation "measure (\<lambda>(i, num_states, state, states). num_states - i)") auto

text \<open>The body of the \<^verbatim>\<open>while (fgets ...)\<close> loop for one buffer.\<close>

definition analyze_line ::
  "(string \<Rightarrow> real) \<Rightarrow> nat \<Rightarrow> string \<Rightarrow> climate_info option list
     \<Rightarrow> error + climate_info option list" where
  "analyze_line atof num_states line states =
     (case decode_record atof (tokenize line) of
        Inl e \<Rightarrow> Inl e
      | Inr state \<Rightarrow> Inr (for_states 0 num_states state states))"

function analyze_file ::
  "(string \<Rightarrow> real) \<Rightarrow> nat \<Rightarrow> string \<Rightarrow> climate_info option list
     \<Rightarrow> error + climate_info option list" where
  "analyze_file atof num_states file states =
     (case fgets 100 file of
        None \<Rightarrow> Inr states
      | Some (line, file') \<Rightarrow>
          (case analyze_line atof num_states line states of
             Inl e \<Rightarrow> Inl e
           | Inr states' \<Rightarrow> analyze_file atof num_states file' states'))"
  by pat_completeness auto
termination
proof (relation "measure (\<lambda>(atof, num_states, file, states). length file)")
  show "wf (measure (\<lambda>(atof, num_states, file, states). length file))"
    by simp
next
  fix atof :: "string \<Rightarrow> real" and num_states :: nat and content :: string
    and states :: "climate_info option list" and x2 :: "string \<times> string"
    and line rest :: string and states' :: "climate_info option list"
  assume "fgets 100 content = Some x2" and "(line, rest) = x2"
  then have "length rest < length content"
    by (cases content) (auto simp: fgets_def Let_def split: if_splits)
  then show "((atof, num_states, rest, states'), (atof, num_states, content, states))
      \<in> measure (\<lambda>(atof, num_states, file, states). length file)"
    by simp
qed

subsection \<open>The report and the main program\<close>

text \<open>
  \<^verbatim>\<open>print_report\<close> prints the codes of all slots that are not \<^verbatim>\<open>NULL\<close> and then one
  block per such slot. The model keeps the values that are passed to \<^verbatim>\<open>printf\<close>, not
  their text. Each average is the stored sum divided by \<open>num_records\<close>; a count of zero
  (which needs \<open>2 ^ 64\<close> records of one state) would make the C division yield an
  infinity or NaN, where the division of the reals yields 0.
\<close>

record report_block =
  rb_code :: string
  rb_num_records :: "64 word"
  rb_avg_humidity :: real
  rb_avg_temp :: real
  rb_max_temp :: real
  rb_max_temp_date :: int
  rb_min_temp :: real
  rb_min_temp_date :: int
  rb_lightning_strikes :: int
  rb_snow :: int
  rb_avg_cloud_cover :: real

definition found_states :: "climate_info option list \<Rightarrow> nat \<Rightarrow> climate_info list" where
  "found_states states num_states = List.map_filter (\<lambda>p. p) (take num_states states)"

definition report_block_of :: "climate_info \<Rightarrow> report_block" where
  "report_block_of info =
     \<lparr> rb_code = code info,
       rb_num_records = num_records info,
       rb_avg_humidity = humidity info / real (unat (num_records info)),
       rb_avg_temp = temp info / real (unat (num_records info)),
       rb_max_temp = max_temp info,
       rb_max_temp_date = max_temp_date info,
       rb_min_temp = min_temp info,
       rb_min_temp_date = min_temp_date info,
       rb_lightning_strikes = lightning_strikes info,
       rb_snow = snow info,
       rb_avg_cloud_cover = cloud_cover info / real (unat (num_records info)) \<rparr>"

definition print_report ::
  "climate_info option list \<Rightarrow> nat \<Rightarrow> string list \<times> report_block list" where
  "print_report states num_states =
     (map code (found_states states num_states),
      map report_block_of (found_states states num_states))"

text \<open>
  The loop of \<^verbatim>\<open>main\<close> over the file arguments: \<open>None\<close> is a file that cannot be
  opened, \<open>Some\<close> the contents of one that can.
\<close>

fun analyze_files ::
  "(string \<Rightarrow> real) \<Rightarrow> string option list \<Rightarrow> climate_info option list
     \<Rightarrow> error + climate_info option list" where
  "analyze_files atof [] states = Inr states"
| "analyze_files atof (None # files) states = Inl File_open"
| "analyze_files atof (Some file # files) states =
     (case analyze_file atof NUM_STATES file states of
        Inl e \<Rightarrow> Inl e
      | Inr states' \<Rightarrow> analyze_files atof files states')"

definition climate_main ::
  "(string \<Rightarrow> real) \<Rightarrow> string option list
     \<Rightarrow> error + (string list \<times> report_block list)" where
  "climate_main atof files =
     (if files = [] then Inl Usage
      else
        (case analyze_files atof files (replicate NUM_STATES None) of
           Inl e \<Rightarrow> Inl e
         | Inr states \<Rightarrow> Inr (print_report states NUM_STATES)))"

subsection \<open>Notions used to state the properties\<close>

text \<open>
  The records of a run, in the order in which the lines are read, are folded into the
  table one after the other by the loop of \<open>for_states\<close>.
\<close>

definition consume_records ::
  "nat \<Rightarrow> climate_info list \<Rightarrow> climate_info option list \<Rightarrow> climate_info option list" where
  "consume_records num_states records states =
     foldl (\<lambda>T r. for_states 0 num_states r T) states records"

text \<open>
  A record as \<open>decode_record\<close> builds it: one observation, whose extrema are its own
  temperature and whose two dates are its own timestamp.
\<close>

definition fresh_record :: "climate_info \<Rightarrow> bool" where
  "fresh_record r =
     (num_records r = 1 \<and> max_temp r = temp r \<and> min_temp r = temp r \<and>
      max_temp_date r = min_temp_date r)"

text \<open>The elements of a list in the order of their first occurrence.\<close>

definition first_seen :: "'a list \<Rightarrow> 'a list" where
  "first_seen xs = rev (remdups (rev xs))"

text \<open>
  The records of one state code, in input order, and their fold: the first record,
  updated with each of the following ones (no accumulator when there is no record).
\<close>

definition records_of :: "string \<Rightarrow> climate_info list \<Rightarrow> climate_info list" where
  "records_of c records = filter (\<lambda>r. code r = c) records"

fun fold_records :: "climate_info list \<Rightarrow> climate_info option" where
  "fold_records [] = None"
| "fold_records (r # rs) = Some (foldl update_state r rs)"

text \<open>
  The table after a run from the empty table, written without the loop: one slot per
  code among the first \<open>n\<close> distinct codes, then the free slots.
\<close>

definition table_of :: "nat \<Rightarrow> climate_info list \<Rightarrow> climate_info option list" where
  "table_of n records =
     map (\<lambda>c. fold_records (records_of c records))
       (take n (first_seen (map code records)))
     @ replicate (n - length (first_seen (map code records))) None"

text \<open>
  The buffers that the successive calls of \<^verbatim>\<open>fgets\<close> return on a file, and the
  records decoded from a list of buffers (the first error when one of them fails).
\<close>

function file_lines :: "string \<Rightarrow> string list" where
  "file_lines content =
     (case fgets 100 content of
        None \<Rightarrow> []
      | Some (line, rest) \<Rightarrow> line # file_lines rest)"
  by pat_completeness auto
termination
proof (relation "measure length")
  show "wf (measure (length :: string \<Rightarrow> nat))"
    by simp
next
  fix content :: string and x2 :: "string \<times> string" and line rest :: string
  assume "fgets 100 content = Some x2" and "(line, rest) = x2"
  then have "length rest < length content"
    by (cases content) (auto simp: fgets_def Let_def split: if_splits)
  then show "(rest, content) \<in> measure length"
    by simp
qed

fun decode_lines :: "(string \<Rightarrow> real) \<Rightarrow> string list \<Rightarrow> error + climate_info list" where
  "decode_lines atof [] = Inr []"
| "decode_lines atof (line # lines) =
     (case decode_record atof (tokenize line) of
        Inl e \<Rightarrow> Inl e
      | Inr r \<Rightarrow>
          (case decode_lines atof lines of
             Inl e \<Rightarrow> Inl e
           | Inr rs \<Rightarrow> Inr (r # rs)))"

text \<open>The loop of \<open>for_states\<close> from index 0, by recursion on the array.\<close>

fun scan_states :: "climate_info \<Rightarrow> climate_info option list \<Rightarrow> climate_info option list" where
  "scan_states state [] = []"
| "scan_states state (None # rest) = Some state # rest"
| "scan_states state (Some s # rest) =
     (if code s = code state then Some (update_state s state) # rest
      else Some s # scan_states state rest)"

text \<open>
  All the tokens that repeated calls of \<open>strtok\<close> find in a text, with no bound on
  their number: the fields of a line, as the program separates them.
\<close>

function all_tokens :: "string \<Rightarrow> string list" where
  "all_tokens s = (case strtok s of None \<Rightarrow> [] | Some (t, rest) \<Rightarrow> t # all_tokens rest)"
  by pat_completeness auto
termination
proof (relation "measure length")
  show "wf (measure (length :: string \<Rightarrow> nat))"
    by simp
next
  fix s :: string and x2 :: "string \<times> string" and t rest :: string
  assume "strtok s = Some x2" and "(t, rest) = x2"
  then have tok: "strtok s = Some (t, rest)"
    by simp
  define s' where "s' = dropWhile is_delim s"
  from tok have ne: "s' \<noteq> []" and rest: "rest = drop 1 (dropWhile (\<lambda>c. \<not> is_delim c) s')"
    by (auto simp: strtok_def Let_def s'_def split: if_splits)
  from ne have "\<not> is_delim (hd s')"
    unfolding s'_def by (rule hd_dropWhile)
  with ne have "length (dropWhile (\<lambda>c. \<not> is_delim c) s') < length s'"
    by (cases s') (auto simp: less_Suc_eq_le length_dropWhile_le)
  moreover have "length s' \<le> length s"
    unfolding s'_def by (rule length_dropWhile_le)
  ultimately have "length rest < length s"
    unfolding rest by simp
  then show "(rest, s) \<in> measure length"
    by simp
qed

definition tokens_from :: "(string \<times> string) option \<Rightarrow> string list" where
  "tokens_from token = (case token of None \<Rightarrow> [] | Some (t, rest) \<Rightarrow> t # all_tokens rest)"

subsection \<open>Concrete inputs\<close>

text \<open>A line of a data file with the given fields.\<close>

fun tdv_line :: "string list \<Rightarrow> string" where
  "tdv_line [] = [NL]"
| "tdv_line [f] = f @ [NL]"
| "tdv_line (f # g # fs) = f @ TAB # tdv_line (g # fs)"

text \<open>
  A reading of plain decimal numerals (an optional minus sign, digits, an optional
  fraction), which is what \<^verbatim>\<open>atof\<close> returns on them. It only serves to run the
  functions above on concrete lines.
\<close>

definition is_digit :: "char \<Rightarrow> bool" where
  "is_digit c = (48 \<le> (of_char c :: nat) \<and> (of_char c :: nat) \<le> 57)"

definition digits_val :: "string \<Rightarrow> nat" where
  "digits_val ds = foldl (\<lambda>n c. 10 * n + (of_char c - 48)) 0 ds"

definition atof_dec :: "string \<Rightarrow> real" where
  "atof_dec s =
     (let neg = (take 1 s = ''-'');
          s1 = (if neg then drop 1 s else s);
          ip = takeWhile is_digit s1;
          r = dropWhile is_digit s1;
          fp = (if take 1 r = ''.'' then takeWhile is_digit (drop 1 r) else []);
          v = real (digits_val ip) + real (digits_val fp) / 10 ^ length fp
      in if neg then - v else v)"

text \<open>
  The record of an observation at time \<open>t\<close> (seconds) with temperature \<open>f\<close>
  (Fahrenheit) in the state \<open>c\<close>, the other values fixed.
\<close>

definition sample :: "int \<Rightarrow> real \<Rightarrow> string \<Rightarrow> climate_info" where
  "sample t f c =
     \<lparr> code = c, num_records = 1, temp = f, humidity = 50, max_temp = f, max_temp_date = t,
       min_temp = f, min_temp_date = t, lightning_strikes = 0, snow = 0, cloud_cover = 10,
       pressure = 101325 \<rparr>"

definition fifty_states :: "string list" where
  "fifty_states =
     [''AL'', ''AK'', ''AZ'', ''AR'', ''CA'', ''CO'', ''CT'', ''DE'', ''FL'', ''GA'',
      ''HI'', ''ID'', ''IL'', ''IN'', ''IA'', ''KS'', ''KY'', ''LA'', ''ME'', ''MD'',
      ''MA'', ''MI'', ''MN'', ''MS'', ''MO'', ''MT'', ''NE'', ''NV'', ''NH'', ''NJ'',
      ''NM'', ''NY'', ''NC'', ''ND'', ''OH'', ''OK'', ''OR'', ''PA'', ''RI'', ''SC'',
      ''SD'', ''TN'', ''TX'', ''UT'', ''VT'', ''VA'', ''WA'', ''WV'', ''WI'', ''WY'']"

text \<open>Two lines of one state with the same temperature and different pressures.\<close>

definition ca_line_1 :: string where
  "ca_line_1 =
     tdv_line [''CA'', ''1000000'', ''gh1'', ''50'', ''0'', ''10'', ''0'', ''101325'', ''300.0'']"

definition ca_line_2 :: string where
  "ca_line_2 =
     tdv_line [''CA'', ''2000000'', ''gh2'', ''60'', ''0'', ''20'', ''1'', ''101300'', ''300.0'']"

text \<open>A line of WA and a line of TN.\<close>

definition wa_line :: string where
  "wa_line =
     tdv_line [''WA'', ''1000000'', ''gh3'', ''50'', ''0'', ''10'', ''0'', ''101325'', ''300.0'']"

definition tn_line :: string where
  "tn_line =
     tdv_line [''TN'', ''2000000'', ''gh4'', ''60'', ''0'', ''20'', ''1'', ''101300'', ''300.0'']"

text \<open>The first line with two more fields, and a line of three fields.\<close>

definition ca_line_1_extra :: string where
  "ca_line_1_extra =
     tdv_line [''CA'', ''1000000'', ''gh1'', ''50'', ''0'', ''10'', ''0'', ''101325'', ''300.0'',
       ''999'', ''extra'']"

definition short_line :: string where
  "short_line = tdv_line [''CA'', ''1428300000000'', ''9prcjqk3yc80'']"




declare for_states.simps [simp del]
declare collect_tokens.simps [simp del]
declare analyze_file.simps [simp del]
declare all_tokens.simps [simp del]
declare file_lines.simps [simp del]

section \<open>Properties\<close>

subsection \<open>The loop over the table\<close>

lemma for_states_scan_aux:
  "for_states (length pre) (length pre + length T) state (pre @ T) = pre @ scan_states state T"
proof (induction T arbitrary: pre)
  case Nil
  show ?case by (subst for_states.simps) simp
next
  case (Cons x T)
  have rec: "for_states (Suc (length pre)) (length pre + length (x # T)) state (pre @ x # T)
      = pre @ x # scan_states state T"
    using Cons.IH [of "pre @ [x]"] by simp
  show ?case
  proof (cases x)
    case None
    then show ?thesis by (subst for_states.simps) simp
  next
    case (Some s)
    then show ?thesis using rec by (subst for_states.simps) simp
  qed
qed

lemma for_states_scan:
  "for_states 0 (length T) state T = scan_states state T"
  using for_states_scan_aux [of "[]" T state] by simp

lemma scan_states_hit:
  "distinct (map code accs) \<Longrightarrow> code r \<in> code ` set accs \<Longrightarrow>
   scan_states r (map Some accs @ rest) =
     map Some (map (\<lambda>a. if code a = code r then update_state a r else a) accs) @ rest"
proof (induction accs)
  case Nil
  then show ?case by simp
next
  case (Cons a accs)
  show ?case
  proof (cases "code a = code r")
    case True
    with Cons.prems have "\<forall>b\<in>set accs. code b \<noteq> code r" by (auto simp: image_iff)
    then have "map (\<lambda>a. if code a = code r then update_state a r else a) accs = accs"
      by (simp add: map_idI)
    with True show ?thesis by simp
  next
    case False
    with Cons show ?thesis by auto
  qed
qed

lemma scan_states_miss:
  "code r \<notin> code ` set accs \<Longrightarrow>
   scan_states r (map Some accs @ replicate k None) =
     map Some accs @ (if k = 0 then [] else Some r # replicate (k - 1) None)"
proof (induction accs)
  case Nil
  then show ?case by (cases k) simp_all
next
  case (Cons a accs)
  then show ?case by auto
qed

lemma first_seen_snoc:
  "first_seen (xs @ [x]) = (if x \<in> set xs then first_seen xs else first_seen xs @ [x])"
  by (simp add: first_seen_def)

lemma set_first_seen [simp]: "set (first_seen xs) = set xs"
  by (simp add: first_seen_def)

lemma distinct_first_seen [simp]: "distinct (first_seen xs)"
  by (simp add: first_seen_def)

lemma code_update_state [simp]: "code (update_state a r) = code a"
  by (simp add: update_state_def Let_def)

lemma code_foldl_update_state [simp]: "code (foldl update_state a rs) = code a"
  by (induction rs arbitrary: a) simp_all

lemma records_of_nonempty:
  "records_of c records \<noteq> [] \<longleftrightarrow> c \<in> code ` set records"
  by (auto simp: records_of_def filter_empty_conv)

lemma fold_records_Some:
  "rs \<noteq> [] \<Longrightarrow> \<exists>a. fold_records rs = Some a"
  by (cases rs) simp_all

lemma fold_records_nonempty:
  "fold_records rs = Some a \<Longrightarrow> rs \<noteq> []"
  by (cases rs) simp_all

lemma code_fold_records:
  assumes "fold_records (records_of c records) = Some a"
  shows "code a = c"
proof (cases "records_of c records")
  case Nil
  with assms show ?thesis by simp
next
  case (Cons r rs)
  then have "r \<in> set (records_of c records)"
    by simp
  then have "code r = c"
    by (simp add: records_of_def)
  with assms Cons show ?thesis
    by auto
qed

lemma fold_records_snoc:
  "fold_records (rs @ [r]) =
     Some (case fold_records rs of None \<Rightarrow> r | Some a \<Rightarrow> update_state a r)"
  by (cases rs) simp_all

lemma length_table_of [simp]: "length (table_of n records) = n"
  by (simp add: table_of_def)

lemma found_states_shape:
  "found_states (map Some accs @ replicate k None) (length accs + k) = accs"
proof -
  have "List.map_filter (\<lambda>p. p) (map Some accs @ replicate k None) = accs"
    by (induction accs)
      (simp_all add: List.map_filter_simps, induction k, simp_all add: List.map_filter_simps)
  then show ?thesis by (simp add: found_states_def)
qed

text \<open>The accumulators of \<open>table_of\<close>.\<close>

lemma table_of_accs:
  obtains accs where
    "table_of n records =
       map Some accs @ replicate (n - length (first_seen (map code records))) None"
    and "map (\<lambda>c. fold_records (records_of c records)) (take n (first_seen (map code records)))
       = map Some accs"
    and "map code accs = take n (first_seen (map code records))"
    and "found_states (table_of n records) n = accs"
proof -
  define cs where "cs = take n (first_seen (map code records))"
  define accs where "accs = map (\<lambda>c. the (fold_records (records_of c records))) cs"
  have cs_sub: "set cs \<subseteq> code ` set records"
    using set_take_subset [of n "first_seen (map code records)"] by (auto simp: cs_def)
  have some: "fold_records (records_of c records) = Some (the (fold_records (records_of c records)))"
    if "c \<in> set cs" for c
  proof -
    from that cs_sub have "records_of c records \<noteq> []"
      by (auto simp: records_of_nonempty)
    from fold_records_Some [OF this] show ?thesis
      by auto
  qed
  have m: "map (\<lambda>c. fold_records (records_of c records)) cs = map Some accs"
    unfolding accs_def map_map
  proof (rule map_cong [OF refl])
    fix c assume "c \<in> set cs"
    from some [OF this]
    show "fold_records (records_of c records) =
        (Some \<circ> (\<lambda>c. the (fold_records (records_of c records)))) c"
      unfolding o_apply .
  qed
  have codes: "map code accs = cs"
    unfolding accs_def map_map
  proof (rule map_idI)
    fix c assume "c \<in> set cs"
    from code_fold_records [OF some [OF this]]
    show "(code \<circ> (\<lambda>c. the (fold_records (records_of c records)))) c = c"
      by simp
  qed
  have tbl: "table_of n records =
       map Some accs @ replicate (n - length (first_seen (map code records))) None"
    using m by (simp add: table_of_def cs_def)
  have "length accs = min n (length (first_seen (map code records)))"
    by (simp add: accs_def cs_def min.commute)
  then have "n = length accs + (n - length (first_seen (map code records)))"
    by (simp add: min_def)
  then have "found_states (table_of n records) n = accs"
    unfolding tbl using found_states_shape [of accs "n - length (first_seen (map code records))"]
    by simp
  with tbl m codes show ?thesis
    unfolding cs_def by (rule that)
qed

lemma table_of_step:
  "scan_states r (table_of n records) = table_of n (records @ [r])"
proof -
  define cs where "cs = take n (first_seen (map code records))"
  define k where "k = n - length (first_seen (map code records))"
  obtain accs where tbl: "table_of n records = map Some accs @ replicate k None"
    and m: "map (\<lambda>c. fold_records (records_of c records)) cs = map Some accs"
    and codes: "map code accs = cs"
    unfolding cs_def k_def by (rule table_of_accs)
  have cs_sub: "set cs \<subseteq> code ` set records"
    using set_take_subset [of n "first_seen (map code records)"] by (auto simp: cs_def)
  have dist: "distinct (map code accs)"
    unfolding codes cs_def by simp
  have acc: "fold_records (records_of (code a) records) = Some a" if "a \<in> set accs" for a
  proof -
    from that obtain i where i: "i < length accs" "accs ! i = a"
      by (auto simp: in_set_conv_nth)
    then have "i < length cs"
      using arg_cong [OF codes, of length] by simp
    with i have "cs ! i = code a"
      using arg_cong [OF codes, of "\<lambda>xs. xs ! i"] by simp
    moreover have "map (\<lambda>c. fold_records (records_of c records)) cs ! i = map Some accs ! i"
      by (simp only: m)
    ultimately show ?thesis
      using i \<open>i < length cs\<close> by simp
  qed
  show ?thesis
  proof (cases "code r \<in> set cs")
    case True
    then have in_recs: "code r \<in> code ` set records" using cs_sub by auto
    have hit: "code r \<in> code ` set accs"
      using True codes by (metis set_map)
    have fs: "first_seen (map code records @ [code r]) = first_seen (map code records)"
      using in_recs by (simp add: first_seen_snoc)
    have "map (\<lambda>c. fold_records (records_of c (records @ [r]))) (map code accs)
        = map Some (map (\<lambda>a. if code a = code r then update_state a r else a) accs)"
      unfolding map_map
    proof (rule map_cong [OF refl])
      fix a assume a: "a \<in> set accs"
      show "((\<lambda>c. fold_records (records_of c (records @ [r]))) \<circ> code) a =
            (Some \<circ> (\<lambda>a. if code a = code r then update_state a r else a)) a"
      proof (cases "code a = code r")
        case True
        then have "records_of (code a) (records @ [r]) = records_of (code a) records @ [r]"
          by (simp add: records_of_def)
        with True acc [OF a] show ?thesis
          by (simp add: fold_records_snoc)
      next
        case False
        then have "records_of (code a) (records @ [r]) = records_of (code a) records"
          by (auto simp: records_of_def)
        with False acc [OF a] show ?thesis
          by simp
      qed
    qed
    then show ?thesis
      unfolding tbl scan_states_hit [OF dist hit]
      by (simp add: table_of_def fs codes cs_def k_def)
  next
    case False
    then have miss: "code r \<notin> code ` set accs"
      using codes by (metis set_map)
    have "map (\<lambda>c. fold_records (records_of c (records @ [r]))) (map code accs) = map Some accs"
      unfolding map_map
    proof (rule map_cong [OF refl])
      fix a assume a: "a \<in> set accs"
      with miss have "code a \<noteq> code r" by (auto simp: image_iff)
      then have "records_of (code a) (records @ [r]) = records_of (code a) records"
        by (auto simp: records_of_def)
      with acc [OF a] show "((\<lambda>c. fold_records (records_of c (records @ [r]))) \<circ> code) a = Some a"
        by simp
    qed
    then have same: "map (\<lambda>c. fold_records (records_of c (records @ [r]))) cs = map Some accs"
      by (simp only: codes)
    show ?thesis
    proof (cases "code r \<in> code ` set records")
      case True
      then have fs: "first_seen (map code records @ [code r]) = first_seen (map code records)"
        by (simp add: first_seen_snoc)
      from True False have "n < length (first_seen (map code records))"
        unfolding cs_def
        by (metis image_set linorder_not_less set_first_seen take_all)
      then have "k = 0" by (simp add: k_def)
      then show ?thesis
        unfolding tbl scan_states_miss [OF miss]
        using same by (simp add: table_of_def fs cs_def k_def)
    next
      case new: False
      then have fs: "first_seen (map code records @ [code r]) = first_seen (map code records) @ [code r]"
        by (simp add: first_seen_snoc)
      show ?thesis
      proof (cases "length (first_seen (map code records)) < n")
        case True
        then have cs_all: "cs = first_seen (map code records)" and kpos: "k \<noteq> 0"
          by (simp_all add: cs_def k_def)
        have "records_of (code r) (records @ [r]) = [r]"
          using new by (auto simp: records_of_def filter_empty_conv image_iff)
        then show ?thesis
          unfolding tbl scan_states_miss [OF miss]
          using same True kpos cs_all
          by (simp add: table_of_def fs k_def Suc_diff_Suc [symmetric] del: replicate_Suc)
      next
        case False
        then have "k = 0" by (simp add: k_def)
        then show ?thesis
          unfolding tbl scan_states_miss [OF miss]
          using same False by (simp add: table_of_def fs cs_def k_def)
      qed
    qed
  qed
qed

lemma length_for_states [simp]:
  "length (for_states i n r T) = length T"
  by (induction i n r T rule: for_states.induct)
     (subst for_states.simps, auto split: option.splits)

lemma consume_records_snoc:
  "consume_records n (rs @ [r]) T = for_states 0 n r (consume_records n rs T)"
  by (simp add: consume_records_def)

lemma consume_records_table:
  "consume_records n records (replicate n None) = table_of n records"
proof (induction records rule: rev_induct)
  case Nil
  show ?case by (simp add: consume_records_def table_of_def first_seen_def)
next
  case (snoc r records)
  have "for_states 0 n r (table_of n records) = scan_states r (table_of n records)"
    using for_states_scan [of "table_of n records" r] by simp
  with snoc show ?case
    by (simp add: consume_records_snoc table_of_step)
qed

subsection \<open>The fold of the records of one state\<close>

subsection \<open>The fold of the records of one state\<close>

lemma max_temp_update_state:
  "max_temp (update_state s r) = (if max_temp s \<le> temp r then temp r else max_temp s)"
  "max_temp_date (update_state s r) =
     (if max_temp s \<le> temp r then max_temp_date r else max_temp_date s)"
  by (simp_all add: update_state_def Let_def)

lemma min_temp_update_state:
  "min_temp (update_state s r) = (if temp r \<le> min_temp s then temp r else min_temp s)"
  "min_temp_date (update_state s r) =
     (if temp r \<le> min_temp s then min_temp_date r else min_temp_date s)"
  by (simp_all add: update_state_def Let_def)

lemma sums_update_state:
  "num_records (update_state s r) = num_records s + 1"
  "humidity (update_state s r) = humidity s + humidity r"
  "temp (update_state s r) = temp s + temp r"
  "cloud_cover (update_state s r) = cloud_cover s + cloud_cover r"
  "pressure (update_state s r) = pressure s + pressure r"
  "snow (update_state s r) = snow s + snow r"
  "lightning_strikes (update_state s r) = lightning_strikes s + lightning_strikes r"
  by (simp_all add: update_state_def Let_def)

lemma foldl_update_state_max:
  assumes "fresh_record r"
  shows "max_temp (foldl update_state r rs) = Max (temp ` set (r # rs)) \<and>
         max_temp_date (foldl update_state r rs) =
           max_temp_date (last (filter (\<lambda>x. temp x = Max (temp ` set (r # rs))) (r # rs)))"
proof (induction rs rule: rev_induct)
  case Nil
  from assms show ?case by (simp add: fresh_record_def)
next
  case (snoc x xs)
  define M where "M = Max (temp ` set (r # xs))"
  from snoc have IH: "max_temp (foldl update_state r xs) = M"
    "max_temp_date (foldl update_state r xs) =
       max_temp_date (last (filter (\<lambda>x. temp x = M) (r # xs)))"
    by (simp_all add: M_def)
  have M': "Max (temp ` set (r # xs @ [x])) = max (temp x) M"
    unfolding M_def by (simp add: Max_insert [symmetric] insert_commute del: Max_insert)
  have ne: "filter (\<lambda>x. temp x = M) (r # xs) \<noteq> []"
  proof -
    have "M \<in> temp ` set (r # xs)"
      unfolding M_def by (rule Max_in) simp_all
    then obtain y where "y \<in> set (r # xs)" and "temp y = M"
      by (elim imageE) simp
    then have "y \<in> set (filter (\<lambda>x. temp x = M) (r # xs))"
      by (simp only: set_filter mem_Collect_eq)
    then show ?thesis
      by (metis empty_iff empty_set)
  qed
  show ?case
  proof (cases "M \<le> temp x")
    case True
    then have "max (temp x) M = temp x" by simp
    with True show ?thesis
      unfolding M' foldl_append
      by (simp add: max_temp_update_state IH)
  next
    case False
    then have mx: "max (temp x) M = M" and nex: "temp x \<noteq> M" by simp_all
    have same: "filter (\<lambda>y. temp y = M) (r # xs @ [x]) = filter (\<lambda>y. temp y = M) (r # xs)"
      using nex by simp
    from False show ?thesis
      unfolding M' mx foldl_append same
      by (simp add: max_temp_update_state IH del: filter.simps)
  qed
qed

lemma fold_records_max:
  assumes "fold_records rs = Some a" and "\<forall>r\<in>set rs. fresh_record r"
  shows "max_temp a = Max (temp ` set rs) \<and>
         max_temp_date a = max_temp_date (last (filter (\<lambda>r. temp r = Max (temp ` set rs)) rs))"
proof (cases rs)
  case Nil
  with assms(1) show ?thesis by simp
next
  case (Cons r rs')
  with assms(2) have "fresh_record r" by simp
  from foldl_update_state_max [OF this, of rs'] assms(1) Cons show ?thesis
    by auto
qed

lemma foldl_update_state_min:
  assumes "fresh_record r"
  shows "min_temp (foldl update_state r rs) = Min (temp ` set (r # rs)) \<and>
         min_temp_date (foldl update_state r rs) =
           min_temp_date (last (filter (\<lambda>x. temp x = Min (temp ` set (r # rs))) (r # rs)))"
proof (induction rs rule: rev_induct)
  case Nil
  from assms show ?case by (simp add: fresh_record_def)
next
  case (snoc x xs)
  define M where "M = Min (temp ` set (r # xs))"
  from snoc have IH: "min_temp (foldl update_state r xs) = M"
    "min_temp_date (foldl update_state r xs) =
       min_temp_date (last (filter (\<lambda>x. temp x = M) (r # xs)))"
    by (simp_all add: M_def)
  have M': "Min (temp ` set (r # xs @ [x])) = min (temp x) M"
    unfolding M_def by (simp add: Min_insert [symmetric] insert_commute del: Min_insert)
  have ne: "filter (\<lambda>x. temp x = M) (r # xs) \<noteq> []"
  proof -
    have "M \<in> temp ` set (r # xs)"
      unfolding M_def by (rule Min_in) simp_all
    then obtain y where "y \<in> set (r # xs)" and "temp y = M"
      by (elim imageE) simp
    then have "y \<in> set (filter (\<lambda>x. temp x = M) (r # xs))"
      by (simp only: set_filter mem_Collect_eq)
    then show ?thesis
      by (metis empty_iff empty_set)
  qed
  show ?case
  proof (cases "temp x \<le> M")
    case True
    then have "min (temp x) M = temp x" by simp
    with True show ?thesis
      unfolding M' foldl_append
      by (simp add: min_temp_update_state IH)
  next
    case False
    then have mx: "min (temp x) M = M" and nex: "temp x \<noteq> M" by simp_all
    have same: "filter (\<lambda>y. temp y = M) (r # xs @ [x]) = filter (\<lambda>y. temp y = M) (r # xs)"
      using nex by simp
    from False show ?thesis
      unfolding M' mx foldl_append same
      by (simp add: min_temp_update_state IH del: filter.simps)
  qed
qed

lemma fold_records_min:
  assumes "fold_records rs = Some a" and "\<forall>r\<in>set rs. fresh_record r"
  shows "min_temp a = Min (temp ` set rs) \<and>
         min_temp_date a = min_temp_date (last (filter (\<lambda>r. temp r = Min (temp ` set rs)) rs))"
proof (cases rs)
  case Nil
  with assms(1) show ?thesis by simp
next
  case (Cons r rs')
  with assms(2) have "fresh_record r" by simp
  from foldl_update_state_min [OF this, of rs'] assms(1) Cons show ?thesis
    by auto
qed

lemma foldl_update_state_sums:
  "num_records (foldl update_state r rs) = num_records r + of_nat (length rs) \<and>
   humidity (foldl update_state r rs) = humidity r + sum_list (map humidity rs) \<and>
   temp (foldl update_state r rs) = temp r + sum_list (map temp rs) \<and>
   cloud_cover (foldl update_state r rs) = cloud_cover r + sum_list (map cloud_cover rs)"
  by (induction rs rule: rev_induct) (simp_all add: sums_update_state)

lemma fold_records_sums:
  assumes "fold_records rs = Some a" and "num_records (hd rs) = 1"
  shows "num_records a = of_nat (length rs) \<and>
         humidity a = sum_list (map humidity rs) \<and>
         temp a = sum_list (map temp rs) \<and>
         cloud_cover a = sum_list (map cloud_cover rs)"
proof (cases rs)
  case Nil
  with assms(1) show ?thesis by simp
next
  case (Cons r rs')
  with foldl_update_state_sums [of r rs'] assms show ?thesis
    by auto
qed

lemma found_states_cases:
  assumes "a \<in> set (found_states (consume_records n records (replicate n None)) n)"
  shows "fold_records (records_of (code a) records) = Some a \<and>
         records_of (code a) records \<noteq> [] \<and>
         code a \<in> set (take n (first_seen (map code records)))"
proof -
  obtain accs where
    m: "map (\<lambda>c. fold_records (records_of c records)) (take n (first_seen (map code records)))
       = map Some accs"
    and codes: "map code accs = take n (first_seen (map code records))"
    and fs: "found_states (table_of n records) n = accs"
    by (rule table_of_accs)
  from assms have "a \<in> set accs"
    by (simp add: consume_records_table fs)
  then have "Some a \<in> set (map Some accs)"
    by simp
  then obtain c where c: "c \<in> set (take n (first_seen (map code records)))"
    and a: "fold_records (records_of c records) = Some a"
    unfolding m [symmetric] by auto
  from code_fold_records [OF a] have "code a = c" .
  with a c fold_records_nonempty [OF a] show ?thesis
    by simp
qed

subsection \<open>The tokenizer\<close>

lemma all_tokens_from: "all_tokens s = tokens_from (strtok s)"
  by (subst all_tokens.simps) (simp add: tokens_from_def)

lemma collect_tokens_from:
  "length tokenList = 9 \<Longrightarrow>
   collect_tokens token index tokenList =
     take index tokenList @ map Some (take (9 - index) (tokens_from token))
       @ drop (index + min (9 - index) (length (tokens_from token))) tokenList"
proof (induction token index tokenList rule: collect_tokens.induct)
  case (1 token index tokenList)
  show ?case
  proof (cases token)
    case None
    then show ?thesis
      by (subst collect_tokens.simps) (simp add: tokens_from_def)
  next
    case (Some p)
    obtain t rest where p: "p = (t, rest)" by (cases p)
    show ?thesis
    proof (cases "index < 9")
      case False
      with Some p "1.prems" show ?thesis
        by (subst collect_tokens.simps) simp
    next
      case True
      have IH: "collect_tokens (strtok rest) (Suc index) (tokenList[index := Some t]) =
          take (Suc index) (tokenList[index := Some t])
          @ map Some (take (9 - Suc index) (tokens_from (strtok rest)))
          @ drop (Suc index + min (9 - Suc index) (length (tokens_from (strtok rest))))
              (tokenList[index := Some t])"
        using "1.IH" [OF Some p [symmetric] True] "1.prems" by simp
      have tk: "take (Suc index) (tokenList[index := Some t]) = take index tokenList @ [Some t]"
        using True "1.prems" by (simp add: take_Suc_conv_app_nth)
      have tf: "tokens_from token = t # tokens_from (strtok rest)"
        using Some p by (simp add: tokens_from_def all_tokens_from)
      obtain m where m: "9 - index = Suc m" using True by (cases "9 - index") auto
      then have m': "9 - Suc index = m" by simp
      have "collect_tokens token index tokenList
          = collect_tokens (strtok rest) (Suc index) (tokenList[index := Some t])"
        using Some p True by (subst collect_tokens.simps) simp
      also note IH
      finally show ?thesis
        unfolding tk tf m m' by simp
    qed
  qed
qed

lemma tokenize_all_tokens:
  "tokenize line =
     map Some (take 9 (all_tokens (c_str line)))
     @ replicate (9 - length (all_tokens (c_str line))) None"
  unfolding tokenize_def
  by (subst collect_tokens_from) (simp_all add: all_tokens_from)

lemma length_tokenize [simp]: "length (tokenize line) = 9"
  by (simp add: tokenize_all_tokens)

lemma decode_record_enough:
  assumes "9 \<le> length (all_tokens (c_str line))"
  shows "\<exists>state. decode_record atof (tokenize line) = Inr state"
proof -
  have "tokenize line = map Some (take 9 (all_tokens (c_str line)))"
    using assms by (simp add: tokenize_all_tokens)
  moreover have "length (take 9 (all_tokens (c_str line))) = 9"
    using assms by simp
  ultimately have "\<forall>k<9. tokenize line ! k \<noteq> None"
    by simp
  then have "filter (\<lambda>k. tokenize line ! k = None) [0, 1, 3, 4, 5, 6, 7, 8] = []"
    by simp
  then show ?thesis
    by (simp add: decode_record_def)
qed

lemma decode_record_short:
  assumes "length (all_tokens (c_str line)) < 9"
  shows "decode_record atof (tokenize line) =
     Inl (Uninitialized_token
        (if length (all_tokens (c_str line)) = 2 then 3 else length (all_tokens (c_str line))))"
proof -
  define toks where "toks = all_tokens (c_str line)"
  have tk: "tokenize line = map Some toks @ replicate (9 - length toks) None"
    using assms by (simp add: tokenize_all_tokens toks_def)
  have nth: "tokenize line ! k = None \<longleftrightarrow> length toks \<le> k" if "k < 9" for k
    using that assms unfolding tk toks_def [symmetric]
    by (auto simp: nth_append)
  have "length toks = 0 \<or> length toks = 1 \<or> length toks = 2 \<or> length toks = 3 \<or>
      length toks = 4 \<or> length toks = 5 \<or> length toks = 6 \<or> length toks = 7 \<or>
      length toks = 8"
    using assms unfolding toks_def [symmetric] by arith
  then show ?thesis
    unfolding decode_record_def toks_def [symmetric]
    by (auto simp: nth)
qed

lemma decode_record_Inr:
  assumes "decode_record atof tokenList = Inr state"
  shows "state =
      \<lparr> code = take 2 (the (tokenList ! 0)),
        num_records = 1,
        temp = atof (the (tokenList ! 8)) * 9 / 5 - 459.67,
        humidity = atof (the (tokenList ! 3)),
        max_temp = atof (the (tokenList ! 8)) * 9 / 5 - 459.67,
        max_temp_date = c_trunc (atof (the (tokenList ! 1)) / 1000),
        min_temp = atof (the (tokenList ! 8)) * 9 / 5 - 459.67,
        min_temp_date = c_trunc (atof (the (tokenList ! 1)) / 1000),
        lightning_strikes = c_trunc (atof (the (tokenList ! 6))),
        snow = c_trunc (atof (the (tokenList ! 4))),
        cloud_cover = atof (the (tokenList ! 5)),
        pressure = atof (the (tokenList ! 7)) \<rparr>"
    and "\<forall>k\<in>{0, 1, 3, 4, 5, 6, 7, 8}. tokenList ! k \<noteq> None"
proof -
  let ?unset = "filter (\<lambda>k. tokenList ! k = None) [0, 1, 3, 4, 5, 6, 7, 8]"
  have e: "?unset = []"
  proof (cases ?unset)
    case Nil
    then show ?thesis .
  next
    case (Cons k ks)
    from assms [unfolded decode_record_def Cons] show ?thesis
      by simp
  qed
  from assms [unfolded decode_record_def e] show "state =
      \<lparr> code = take 2 (the (tokenList ! 0)),
        num_records = 1,
        temp = atof (the (tokenList ! 8)) * 9 / 5 - 459.67,
        humidity = atof (the (tokenList ! 3)),
        max_temp = atof (the (tokenList ! 8)) * 9 / 5 - 459.67,
        max_temp_date = c_trunc (atof (the (tokenList ! 1)) / 1000),
        min_temp = atof (the (tokenList ! 8)) * 9 / 5 - 459.67,
        min_temp_date = c_trunc (atof (the (tokenList ! 1)) / 1000),
        lightning_strikes = c_trunc (atof (the (tokenList ! 6))),
        snow = c_trunc (atof (the (tokenList ! 4))),
        cloud_cover = atof (the (tokenList ! 5)),
        pressure = atof (the (tokenList ! 7)) \<rparr>"
    by simp
  from e have "\<forall>k\<in>set [0, 1, 3, 4, 5, 6, 7, 8]. tokenList ! k \<noteq> None"
    unfolding filter_empty_conv by blast
  then show "\<forall>k\<in>{0, 1, 3, 4, 5, 6, 7, 8}. tokenList ! k \<noteq> None"
    by simp
qed

lemma decode_record_fresh:
  "decode_record atof tokenList = Inr state \<Longrightarrow> fresh_record state"
  by (drule decode_record_Inr(1)) (simp add: fresh_record_def)

subsection \<open>One step on a table reached from the empty table\<close>

lemma table_shape:
  fixes n records
  defines "T \<equiv> consume_records n records (replicate n None)"
  shows "T = map Some (found_states T n) @ replicate (n - length (found_states T n)) None"
    and "map code (found_states T n) = take n (first_seen (map code records))"
    and "distinct (map code (found_states T n))"
    and "length (found_states T n) \<le> n"
    and "length T = n"
proof -
  have T: "T = table_of n records" by (simp add: T_def consume_records_table)
  obtain accs where
    tbl: "table_of n records =
       map Some accs @ replicate (n - length (first_seen (map code records))) None"
    and codes: "map code accs = take n (first_seen (map code records))"
    and fs: "found_states (table_of n records) n = accs"
    by (rule table_of_accs)
  show c: "map code (found_states T n) = take n (first_seen (map code records))"
    unfolding T fs by (rule codes)
  show "distinct (map code (found_states T n))"
    unfolding c by simp
  have "length (map code (found_states T n)) \<le> n"
    unfolding c by simp
  then show "length (found_states T n) \<le> n" by simp
  show "length T = n" by (simp add: T)
  have "length accs = min n (length (first_seen (map code records)))"
    using arg_cong [OF codes, of length] by simp
  then have "n - length (first_seen (map code records)) = n - length accs"
    by (simp add: min_def)
  then show "T = map Some (found_states T n) @ replicate (n - length (found_states T n)) None"
    unfolding T fs using tbl by simp
qed

lemma consume_step:
  fixes n records r
  defines "T \<equiv> consume_records n records (replicate n None)"
  defines "T' \<equiv> for_states 0 n r T"
  shows "code r \<in> code ` set (found_states T n) \<Longrightarrow>
           found_states T' n =
             map (\<lambda>a. if code a = code r then update_state a r else a) (found_states T n)"
    and "code r \<notin> code ` set (found_states T n) \<Longrightarrow> length (found_states T n) < n \<Longrightarrow>
           found_states T' n = found_states T n @ [r]"
    and "code r \<notin> code ` set (found_states T n) \<Longrightarrow> \<not> length (found_states T n) < n \<Longrightarrow>
           T' = T"
proof -
  define accs where "accs = found_states T n"
  define k where "k = n - length accs"
  have shape: "T = map Some accs @ replicate k None" and dist: "distinct (map code accs)"
    and le: "length accs \<le> n" and len: "length T = n"
    using table_shape [of n records] by (simp_all add: T_def accs_def k_def)
  have T': "T' = scan_states r (map Some accs @ replicate k None)"
    unfolding T'_def using for_states_scan [of T r] len shape by simp
  have n: "n = length accs + k" using le by (simp add: k_def)
  {
    assume hit: "code r \<in> code ` set accs"
    have "found_states T' n =
        map (\<lambda>a. if code a = code r then update_state a r else a) accs"
      unfolding T' scan_states_hit [OF dist hit] n
      using found_states_shape
        [of "map (\<lambda>a. if code a = code r then update_state a r else a) accs" k]
      by simp
  }
  then show "code r \<in> code ` set (found_states T n) \<Longrightarrow>
           found_states T' n =
             map (\<lambda>a. if code a = code r then update_state a r else a) (found_states T n)"
    by (simp add: accs_def)
  {
    assume miss: "code r \<notin> code ` set accs" and free: "length accs < n"
    then obtain k' where k': "k = Suc k'" by (cases k) (auto simp: k_def)
    have "found_states T' n = accs @ [r]"
      unfolding T' scan_states_miss [OF miss] n k'
      using found_states_shape [of "accs @ [r]" k'] by simp
  }
  then show "code r \<notin> code ` set (found_states T n) \<Longrightarrow> length (found_states T n) < n \<Longrightarrow>
           found_states T' n = found_states T n @ [r]"
    by (simp add: accs_def)
  {
    assume miss: "code r \<notin> code ` set accs" and full: "\<not> length accs < n"
    then have "k = 0" by (simp add: k_def)
    then have "T' = T"
      unfolding T' scan_states_miss [OF miss] shape by simp
  }
  then show "code r \<notin> code ` set (found_states T n) \<Longrightarrow> \<not> length (found_states T n) < n \<Longrightarrow>
           T' = T"
    by (simp add: accs_def)
qed

lemma consume_records_append:
  "consume_records n (rs @ further) T = consume_records n further (consume_records n rs T)"
  by (simp add: consume_records_def)

subsection \<open>The program and the fold of its records\<close>

text \<open>
  What \<open>analyze_file\<close>, the loop of \<open>main\<close> and \<open>main\<close> itself compute, in terms of
  the records decoded from the buffers of the files, taken in the order of the
  arguments: the properties of \<open>consume_records\<close> stated below are properties of the
  program's table.
\<close>

lemma consume_records_Cons:
  "consume_records n (r # rs) T = consume_records n rs (for_states 0 n r T)"
  by (simp add: consume_records_def)

lemma analyze_file_decode_lines:
  "analyze_file atof n content T =
     (case decode_lines atof (file_lines content) of
        Inl e \<Rightarrow> Inl e
      | Inr rs \<Rightarrow> Inr (consume_records n rs T))"
proof (induction atof n content T rule: analyze_file.induct)
  case (1 atof n content T)
  show ?case
  proof (cases "fgets 100 content")
    case None
    then show ?thesis
      by (subst analyze_file.simps, subst file_lines.simps) (simp add: consume_records_def)
  next
    case (Some p)
    obtain line rest where p: "p = (line, rest)" by (cases p)
    show ?thesis
    proof (cases "decode_record atof (tokenize line)")
      case (Inl e)
      with Some p show ?thesis
        by (subst analyze_file.simps, subst file_lines.simps) (simp add: analyze_line_def)
    next
      case (Inr r)
      then have al: "analyze_line atof n line T = Inr (for_states 0 n r T)"
        by (simp add: analyze_line_def)
      from "1.IH" [OF Some p [symmetric] al]
      have IH: "analyze_file atof n rest (for_states 0 n r T) =
         (case decode_lines atof (file_lines rest) of
            Inl e \<Rightarrow> Inl e
          | Inr rs \<Rightarrow> Inr (consume_records n rs (for_states 0 n r T)))" .
      have "analyze_file atof n content T = analyze_file atof n rest (for_states 0 n r T)"
        using Some p al by (subst analyze_file.simps) simp
      moreover have "file_lines content = line # file_lines rest"
        using Some p by (subst file_lines.simps) simp
      ultimately show ?thesis
        using IH Inr by (simp add: consume_records_Cons split: sum.splits)
    qed
  qed
qed

lemma decode_lines_append:
  "decode_lines atof (xs @ ys) =
     (case decode_lines atof xs of
        Inl e \<Rightarrow> Inl e
      | Inr rs \<Rightarrow>
          (case decode_lines atof ys of
             Inl e \<Rightarrow> Inl e
           | Inr rs' \<Rightarrow> Inr (rs @ rs')))"
  by (induction xs) (auto split: sum.splits)

lemma decode_lines_fresh:
  "decode_lines atof ls = Inr rs \<Longrightarrow> list_all fresh_record rs"
  by (induction ls arbitrary: rs) (auto split: sum.splits dest: decode_record_fresh)

lemma analyze_files_decode_lines:
  "analyze_files atof (map Some contents) T =
     (case decode_lines atof (concat (map file_lines contents)) of
        Inl e \<Rightarrow> Inl e
      | Inr rs \<Rightarrow> Inr (consume_records NUM_STATES rs T))"
proof (induction contents arbitrary: T)
  case Nil
  show ?case by (simp add: consume_records_def)
next
  case (Cons c contents)
  show ?case
    by (simp add: analyze_file_decode_lines Cons.IH decode_lines_append consume_records_append
        split: sum.splits)
qed

lemma climate_main_decode_lines:
  "climate_main atof (map Some contents) =
     (if contents = [] then Inl Usage
      else
        (case decode_lines atof (concat (map file_lines contents)) of
           Inl e \<Rightarrow> Inl e
         | Inr rs \<Rightarrow>
             Inr (print_report
               (consume_records NUM_STATES rs (replicate NUM_STATES None)) NUM_STATES)))"
  by (simp add: climate_main_def analyze_files_decode_lines split: sum.splits)

lemma for_states_scan_len:
  "n = length T \<Longrightarrow> for_states 0 n state T = scan_states state T"
  using for_states_scan [of T state] by simp

subsection \<open>Running the program on two lines\<close>

lemma tokenize_ca_line_1:
  "tokenize ca_line_1 =
     [Some ''CA'', Some ''1000000'', Some ''gh1'', Some ''50'', Some ''0'', Some ''10'',
      Some ''0'', Some ''101325'', Some ''300.0'']"
  by code_simp

lemma tokenize_ca_line_2:
  "tokenize ca_line_2 =
     [Some ''CA'', Some ''2000000'', Some ''gh2'', Some ''60'', Some ''0'', Some ''20'',
      Some ''1'', Some ''101300'', Some ''300.0'']"
  by code_simp

lemma fgets_ca_lines:
  "fgets 100 (ca_line_1 @ ca_line_2) = Some (ca_line_1, ca_line_2)"
  "fgets 100 ca_line_2 = Some (ca_line_2, [])"
  "fgets 100 ca_line_1 = Some (ca_line_1, [])"
  by code_simp+

lemma atof_dec_values:
  "atof_dec ''1000000'' = 1000000"
  "atof_dec ''2000000'' = 2000000"
  "atof_dec ''50'' = 50"
  "atof_dec ''60'' = 60"
  "atof_dec ''0'' = 0"
  "atof_dec ''1'' = 1"
  "atof_dec ''10'' = 10"
  "atof_dec ''20'' = 20"
  "atof_dec ''101325'' = 101325"
  "atof_dec ''101300'' = 101300"
  "atof_dec ''300.0'' = 300"
  by (simp_all add: atof_dec_def is_digit_def digits_val_def)

lemma decode_ca_line_1:
  "decode_record atof_dec (tokenize ca_line_1) =
     Inr \<lparr> code = ''CA'', num_records = 1, temp = 80.33, humidity = 50, max_temp = 80.33,
           max_temp_date = 1000, min_temp = 80.33, min_temp_date = 1000,
           lightning_strikes = 0, snow = 0, cloud_cover = 10, pressure = 101325 \<rparr>"
  by (simp add: tokenize_ca_line_1 decode_record_def atof_dec_values c_trunc_def)

lemma decode_ca_line_2:
  "decode_record atof_dec (tokenize ca_line_2) =
     Inr \<lparr> code = ''CA'', num_records = 1, temp = 80.33, humidity = 60, max_temp = 80.33,
           max_temp_date = 2000, min_temp = 80.33, min_temp_date = 2000,
           lightning_strikes = 1, snow = 0, cloud_cover = 20, pressure = 101300 \<rparr>"
  by (simp add: tokenize_ca_line_2 decode_record_def atof_dec_values c_trunc_def)

section \<open>The claims\<close>

text \<open>
  In the theorems below, \<open>records\<close> is the list of records that a run decodes, in the
  order of the input, and \<open>consume_records n records (replicate n None)\<close> is the table
  that the loop of \<open>analyze_file\<close> builds from them, starting from the table of \<open>n\<close>
  \<^verbatim>\<open>NULL\<close> pointers of \<open>main\<close> (lemmas \<open>analyze_file_decode_lines\<close> and
  \<open>climate_main_decode_lines\<close>). Every decoded record is a \<open>fresh_record\<close> (lemma
  \<open>decode_lines_fresh\<close>). \<open>found_states\<close> lists the accumulators of a table in the
  order of their slots, as \<open>print_report\<close> goes through them.
\<close>

subsection \<open>C1: maximum temperature\<close>

text \<open>
  C1. After any sequence of consumed records, every accumulator \<open>a\<close> of the table is
  the fold of the records of its code (the records folded into it); its \<open>max_temp\<close> is the maximum of their
  temperatures and its \<open>max_temp_date\<close> is the date of the last of them that reaches
  this maximum. In one update, a record whose temperature equals the current
  \<open>max_temp\<close> replaces both \<open>max_temp\<close> and \<open>max_temp_date\<close> (the last record wins a
  tie); otherwise the new maximum is the larger of the two temperatures.
\<close>

theorem max_temp_last_wins:
  assumes "list_all fresh_record records"
    and "a \<in> set (found_states (consume_records n records (replicate n None)) n)"
  shows "fold_records (records_of (code a) records) = Some a \<and>
         records_of (code a) records \<noteq> [] \<and>
         max_temp a = Max (temp ` set (records_of (code a) records)) \<and>
         max_temp_date a =
           max_temp_date (last (filter (\<lambda>r. temp r = max_temp a) (records_of (code a) records))) \<and>
         (if temp r = max_temp s
          then max_temp (update_state s r) = temp r \<and>
               max_temp_date (update_state s r) = max_temp_date r
          else max_temp (update_state s r) = max (max_temp s) (temp r))"
proof -
  from found_states_cases [OF assms(2)]
  have a: "fold_records (records_of (code a) records) = Some a"
    and ne: "records_of (code a) records \<noteq> []"
    by simp_all
  have fresh: "\<forall>r\<in>set (records_of (code a) records). fresh_record r"
    using assms(1) by (simp add: records_of_def list_all_iff)
  from fold_records_max [OF a fresh]
  have "max_temp a = Max (temp ` set (records_of (code a) records))"
    and "max_temp_date a =
      max_temp_date (last (filter (\<lambda>r. temp r = Max (temp ` set (records_of (code a) records)))
        (records_of (code a) records)))"
    by simp_all
  then show ?thesis
    using a ne by (simp add: max_temp_update_state)
qed

text \<open>
  Two records of CA with the same temperature, one of WA between them: the date kept
  for CA is that of the second record.
\<close>

theorem max_temp_last_wins_witness:
  "list_all fresh_record
     [sample 1000 80.33 ''CA'', sample 1500 60 ''WA'', sample 2000 80.33 ''CA''] \<and>
   found_states
     (consume_records 2 [sample 1000 80.33 ''CA'', sample 1500 60 ''WA'', sample 2000 80.33 ''CA'']
        (replicate 2 None)) 2 =
     [(sample 2000 80.33 ''CA'') \<lparr> num_records := 2, temp := 160.66, humidity := 100,
         cloud_cover := 20, pressure := 202650 \<rparr>,
      sample 1500 60 ''WA''] \<and>
   max_temp ((sample 2000 80.33 ''CA'') \<lparr> num_records := 2, temp := 160.66, humidity := 100,
         cloud_cover := 20, pressure := 202650 \<rparr>) =
     Max (temp ` set [sample 1000 80.33 ''CA'', sample 2000 80.33 ''CA'']) \<and>
   max_temp_date ((sample 2000 80.33 ''CA'') \<lparr> num_records := 2, temp := 160.66,
         humidity := 100, cloud_cover := 20, pressure := 202650 \<rparr>) =
     max_temp_date (sample 2000 80.33 ''CA'')"
proof -
  let ?rs = "[sample 1000 80.33 ''CA'', sample 1500 60 ''WA'', sample 2000 80.33 ''CA'']"
  let ?a = "(sample 2000 80.33 ''CA'') \<lparr> num_records := 2, temp := 160.66, humidity := 100,
         cloud_cover := 20, pressure := 202650 \<rparr>"
  have fresh: "list_all fresh_record ?rs"
    by (simp add: fresh_record_def sample_def)
  have tbl: "found_states (consume_records 2 ?rs (replicate 2 None)) 2 = [?a, sample 1500 60 ''WA'']"
    by (simp add: consume_records_def for_states_scan_len numeral_2_eq_2 found_states_def
        List.map_filter_simps sample_def update_state_def Let_def)
  then have mem: "?a \<in> set (found_states (consume_records 2 ?rs (replicate 2 None)) 2)"
    by simp
  have recs: "records_of (code ?a) ?rs = [sample 1000 80.33 ''CA'', sample 2000 80.33 ''CA'']"
    by (simp add: records_of_def sample_def)
  have lst: "last (filter (\<lambda>r. temp r = max_temp ?a)
      [sample 1000 80.33 ''CA'', sample 2000 80.33 ''CA'']) = sample 2000 80.33 ''CA''"
    by (simp add: sample_def)
  from max_temp_last_wins [OF fresh mem, of "sample 2000 80.33 ''CA''" "sample 1000 80.33 ''CA''"]
  have "max_temp ?a = Max (temp ` set (records_of (code ?a) ?rs))"
    and "max_temp_date ?a = max_temp_date (last (filter (\<lambda>r. temp r = max_temp ?a)
      (records_of (code ?a) ?rs)))"
    by blast+
  then show ?thesis
    unfolding recs lst using fresh tbl by blast
qed

subsection \<open>C2: a line with fewer than nine fields\<close>

lemma all_tokens_examples:
  "all_tokens (c_str ca_line_1_extra) =
     [''CA'', ''1000000'', ''gh1'', ''50'', ''0'', ''10'', ''0'', ''101325'', ''300.0'',
       ''999'', ''extra'']"
  "all_tokens (c_str ca_line_1) =
     [''CA'', ''1000000'', ''gh1'', ''50'', ''0'', ''10'', ''0'', ''101325'', ''300.0'']"
  "all_tokens (c_str short_line) = [''CA'', ''1428300000000'', ''9prcjqk3yc80'']"
  by code_simp+

text \<open>
  C2 says that a line with fewer than nine fields is skipped. The program has no such
  check: after the tokenizer loop it reads \<open>tokenList[0]\<close> to \<open>tokenList[8]\<close> whatever
  \<open>index\<close> is. On a line of three fields the slot 3 was never assigned, and the program
  reads it (undefined behaviour, the error of the model); the line is not skipped, and
  a file in which a good line follows it has no defined result either. By
  \<open>decode_record_short\<close> the same happens on every line with fewer than nine tokens.
\<close>

theorem short_line_reads_unassigned_token:
  "analyze_line atof n short_line states = Inl (Uninitialized_token 3) \<and>
   analyze_file atof n (short_line @ ca_line_1) states = Inl (Uninitialized_token 3)"
proof -
  have "length (all_tokens (c_str short_line)) < 9"
    by (simp add: all_tokens_examples)
  from decode_record_short [OF this, of atof]
  have line: "analyze_line atof n short_line states = Inl (Uninitialized_token 3)"
    by (simp add: analyze_line_def all_tokens_examples)
  have "fgets 100 (short_line @ ca_line_1) = Some (short_line, ca_line_1)"
    by code_simp
  then have "analyze_file atof n (short_line @ ca_line_1) states = Inl (Uninitialized_token 3)"
    by (subst analyze_file.simps) (simp add: line)
  with line show ?thesis
    by blast
qed

subsection \<open>C3: the number of states\<close>

lemma first_seen_distinct:
  "distinct xs \<Longrightarrow> first_seen xs = xs"
  by (simp add: first_seen_def distinct_remdups_id)

lemma fifty_states_facts:
  "distinct (fifty_states @ [''DC''])"
  "length fifty_states = 50"
  by (simp_all add: fifty_states_def)

lemma code_sample [simp]: "code (sample t f c) = c"
  by (simp add: sample_def)

lemma map_code_sample [simp]: "map code (map (sample t f) cs) = cs"
  by (simp add: comp_def)

text \<open>
  C3 says that every distinct state code is tracked, without an upper bound. The table
  of \<open>main\<close> has \<open>NUM_STATES = 50\<close> slots: after one record for each of the fifty
  states, a record of DC finds no slot, and DC is missing from the report.
\<close>

theorem fifty_first_state_dropped:
  "''DC'' \<in> set (map code (map (sample 1000 50) (fifty_states @ [''DC'']))) \<and>
   ''DC'' \<notin> set (fst (print_report
      (consume_records NUM_STATES (map (sample 1000 50) (fifty_states @ [''DC'']))
         (replicate NUM_STATES None)) NUM_STATES))"
proof -
  let ?records = "map (sample 1000 50) (fifty_states @ [''DC''])"
  have "fst (print_report (consume_records NUM_STATES ?records (replicate NUM_STATES None))
      NUM_STATES) = take NUM_STATES (first_seen (map code ?records))"
    by (simp only: print_report_def fst_conv table_shape(2))
  also have "\<dots> = take 50 (fifty_states @ [''DC''])"
    by (simp only: map_code_sample first_seen_distinct [OF fifty_states_facts(1)] NUM_STATES_def)
  also have "\<dots> = fifty_states"
    by (simp add: fifty_states_facts(2))
  finally have "fst (print_report (consume_records NUM_STATES ?records (replicate NUM_STATES None))
      NUM_STATES) = fifty_states" .
  moreover have "''DC'' \<notin> set fifty_states"
    using fifty_states_facts(1) by simp
  ultimately show ?thesis
    by simp
qed

text \<open>
  C3, amended. The table tracks the first \<open>n\<close> distinct state codes of the input (\<open>n\<close>
  is \<open>NUM_STATES\<close>, 50, in \<open>main\<close>) and never more than \<open>n\<close>. A record whose code
  is tracked is folded into the accumulator of its code by \<open>update_state\<close> (the count
  of that accumulator grows by one) and the other accumulators stay as they are; a
  record with an untracked code that arrives while a slot is free becomes a new
  accumulator after the existing ones; a record with an untracked code that arrives
  when all \<open>n\<close> slots are taken is dropped and the table stays as it is.
\<close>

theorem at_most_num_states_tracked:
  "map code (found_states (consume_records n records (replicate n None)) n) =
     take n (first_seen (map code records)) \<and>
   length (found_states (for_states 0 n r (consume_records n records (replicate n None))) n)
     \<le> n \<and>
   (if code r \<in> set (map code (found_states (consume_records n records (replicate n None)) n))
    then found_states (for_states 0 n r (consume_records n records (replicate n None))) n =
           map (\<lambda>a. if code a = code r then update_state a r else a)
             (found_states (consume_records n records (replicate n None)) n) \<and>
         map num_records
           (found_states (for_states 0 n r (consume_records n records (replicate n None))) n) =
           map (\<lambda>a. if code a = code r then num_records a + 1 else num_records a)
             (found_states (consume_records n records (replicate n None)) n)
    else if length (found_states (consume_records n records (replicate n None)) n) < n
    then found_states (for_states 0 n r (consume_records n records (replicate n None))) n =
           found_states (consume_records n records (replicate n None)) n @ [r]
    else for_states 0 n r (consume_records n records (replicate n None)) =
           consume_records n records (replicate n None))"
proof -
  let ?T = "consume_records n records (replicate n None)"
  let ?T' = "for_states 0 n r ?T"
  have T': "?T' = consume_records n (records @ [r]) (replicate n None)"
    by (simp add: consume_records_snoc)
  have len: "length (found_states ?T' n) \<le> n"
    unfolding T' by (rule table_shape(4))
  have step: "if code r \<in> set (map code (found_states ?T n))
    then found_states ?T' n =
           map (\<lambda>a. if code a = code r then update_state a r else a) (found_states ?T n) \<and>
         map num_records (found_states ?T' n) =
           map (\<lambda>a. if code a = code r then num_records a + 1 else num_records a)
             (found_states ?T n)
    else if length (found_states ?T n) < n
    then found_states ?T' n = found_states ?T n @ [r]
    else ?T' = ?T"
  proof (cases "code r \<in> code ` set (found_states ?T n)")
    case True
    note upd = consume_step(1) [OF True]
    have "map num_records (found_states ?T' n) =
        map (\<lambda>a. if code a = code r then num_records a + 1 else num_records a) (found_states ?T n)"
      unfolding upd map_map
      by (rule map_cong [OF refl]) (simp add: sums_update_state)
    with True upd show ?thesis by simp
  next
    case False
    show ?thesis
    proof (cases "length (found_states ?T n) < n")
      case True
      from consume_step(2) [OF False True] show ?thesis
        using True False by simp
    next
      case full: False
      from consume_step(3) [OF False full] show ?thesis
        using False full by simp
    qed
  qed
  show ?thesis
    using table_shape(2) [of n records] len step by blast
qed

text \<open>
  A table with one slot that holds WA: a second record of WA is folded into the
  accumulator (its count becomes 2), a record of TN leaves the table unchanged.
\<close>

theorem at_most_num_states_tracked_witness:
  "found_states (consume_records 1 [sample 1000 50 ''WA''] (replicate 1 None)) 1 =
     [sample 1000 50 ''WA''] \<and>
   found_states
     (for_states 0 1 (sample 2000 40 ''WA'')
        (consume_records 1 [sample 1000 50 ''WA''] (replicate 1 None))) 1 =
     [(sample 1000 50 ''WA'') \<lparr> num_records := 2, temp := 90, humidity := 100,
         min_temp := 40, min_temp_date := 2000, cloud_cover := 20, pressure := 202650 \<rparr>] \<and>
   for_states 0 1 (sample 2000 40 ''TN'') (consume_records 1 [sample 1000 50 ''WA''] (replicate 1 None)) =
     consume_records 1 [sample 1000 50 ''WA''] (replicate 1 None)"
proof -
  have tbl: "found_states (consume_records 1 [sample 1000 50 ''WA''] (replicate 1 None)) 1 =
     [sample 1000 50 ''WA'']"
    by (simp add: consume_records_def for_states_scan_len found_states_def List.map_filter_simps)
  from at_most_num_states_tracked [of 1 "[sample 1000 50 ''WA'']" "sample 2000 40 ''TN''",
      unfolded tbl]
  have dropped: "for_states 0 1 (sample 2000 40 ''TN'')
      (consume_records 1 [sample 1000 50 ''WA''] (replicate 1 None)) =
    consume_records 1 [sample 1000 50 ''WA''] (replicate 1 None)"
    by (simp del: One_nat_def replicate.simps)
  from at_most_num_states_tracked [of 1 "[sample 1000 50 ''WA'']" "sample 2000 40 ''WA''",
      unfolded tbl]
  have "found_states
     (for_states 0 1 (sample 2000 40 ''WA'')
        (consume_records 1 [sample 1000 50 ''WA''] (replicate 1 None))) 1 =
     [update_state (sample 1000 50 ''WA'') (sample 2000 40 ''WA'')]"
    by (simp del: One_nat_def replicate.simps)
  moreover have "update_state (sample 1000 50 ''WA'') (sample 2000 40 ''WA'') =
     (sample 1000 50 ''WA'') \<lparr> num_records := 2, temp := 90, humidity := 100,
         min_temp := 40, min_temp_date := 2000, cloud_cover := 20, pressure := 202650 \<rparr>"
    by (simp add: update_state_def sample_def Let_def)
  ultimately show ?thesis
    using tbl dropped by simp
qed

subsection \<open>C4: minimum temperature\<close>

text \<open>
  C4. After any sequence of consumed records, the \<open>min_temp\<close> of every accumulator is the
  minimum of the temperatures of the records of its code (the records folded into it),
  and its \<open>min_temp_date\<close> is the date of the last of them that reaches this minimum. In
  one update, a record whose temperature equals the current \<open>min_temp\<close> replaces both
  \<open>min_temp\<close> and \<open>min_temp_date\<close>; otherwise the new minimum is the smaller of the two.
\<close>

theorem min_temp_last_wins:
  assumes "list_all fresh_record records"
    and "a \<in> set (found_states (consume_records n records (replicate n None)) n)"
  shows "fold_records (records_of (code a) records) = Some a \<and>
         records_of (code a) records \<noteq> [] \<and>
         min_temp a = Min (temp ` set (records_of (code a) records)) \<and>
         min_temp_date a =
           min_temp_date (last (filter (\<lambda>r. temp r = min_temp a) (records_of (code a) records))) \<and>
         (if temp r = min_temp s
          then min_temp (update_state s r) = temp r \<and>
               min_temp_date (update_state s r) = min_temp_date r
          else min_temp (update_state s r) = min (min_temp s) (temp r))"
proof -
  from found_states_cases [OF assms(2)]
  have a: "fold_records (records_of (code a) records) = Some a"
    and ne: "records_of (code a) records \<noteq> []"
    by simp_all
  have fresh: "\<forall>r\<in>set (records_of (code a) records). fresh_record r"
    using assms(1) by (simp add: records_of_def list_all_iff)
  from fold_records_min [OF a fresh]
  have "min_temp a = Min (temp ` set (records_of (code a) records))"
    and "min_temp_date a =
      min_temp_date (last (filter (\<lambda>r. temp r = Min (temp ` set (records_of (code a) records)))
        (records_of (code a) records)))"
    by simp_all
  then show ?thesis
    using a ne by (simp add: min_temp_update_state)
qed

text \<open>Three records of TN, the first and the last equally cold: the last one gives the date.\<close>

theorem min_temp_last_wins_witness:
  "list_all fresh_record
     [sample 1000 (-11.1) ''TN'', sample 1500 20 ''TN'', sample 2000 (-11.1) ''TN''] \<and>
   found_states
     (consume_records 2
        [sample 1000 (-11.1) ''TN'', sample 1500 20 ''TN'', sample 2000 (-11.1) ''TN'']
        (replicate 2 None)) 2 =
     [(sample 2000 (-11.1) ''TN'') \<lparr> num_records := 3, temp := -2.2, humidity := 150,
         max_temp := 20, max_temp_date := 1500, cloud_cover := 30, pressure := 303975 \<rparr>] \<and>
   min_temp ((sample 2000 (-11.1) ''TN'') \<lparr> num_records := 3, temp := -2.2, humidity := 150,
         max_temp := 20, max_temp_date := 1500, cloud_cover := 30, pressure := 303975 \<rparr>) =
     Min (temp ` set [sample 1000 (-11.1) ''TN'', sample 1500 20 ''TN'', sample 2000 (-11.1) ''TN'']) \<and>
   min_temp_date ((sample 2000 (-11.1) ''TN'') \<lparr> num_records := 3, temp := -2.2,
         humidity := 150, max_temp := 20, max_temp_date := 1500, cloud_cover := 30,
         pressure := 303975 \<rparr>) =
     min_temp_date (sample 2000 (-11.1) ''TN'')"
proof -
  let ?rs = "[sample 1000 (-11.1) ''TN'', sample 1500 20 ''TN'', sample 2000 (-11.1) ''TN'']"
  let ?a = "(sample 2000 (-11.1) ''TN'') \<lparr> num_records := 3, temp := -2.2, humidity := 150,
         max_temp := 20, max_temp_date := 1500, cloud_cover := 30, pressure := 303975 \<rparr>"
  have fresh: "list_all fresh_record ?rs"
    by (simp add: fresh_record_def sample_def)
  have tbl: "found_states (consume_records 2 ?rs (replicate 2 None)) 2 = [?a]"
    by (simp add: consume_records_def for_states_scan_len numeral_2_eq_2 found_states_def
        List.map_filter_simps sample_def update_state_def Let_def)
  then have mem: "?a \<in> set (found_states (consume_records 2 ?rs (replicate 2 None)) 2)"
    by simp
  have recs: "records_of (code ?a) ?rs = ?rs"
    by (simp add: records_of_def sample_def)
  have lst: "last (filter (\<lambda>r. temp r = min_temp ?a) ?rs) = sample 2000 (-11.1) ''TN''"
    by (simp add: sample_def)
  from min_temp_last_wins [OF fresh mem, of "sample 2000 (-11.1) ''TN''" "sample 1000 (-11.1) ''TN''"]
  have "min_temp ?a = Min (temp ` set (records_of (code ?a) ?rs))"
    and "min_temp_date ?a = min_temp_date (last (filter (\<lambda>r. temp r = min_temp ?a)
      (records_of (code ?a) ?rs)))"
    by blast+
  then show ?thesis
    unfolding recs lst using fresh tbl by blast
qed

subsection \<open>C5: discovery order\<close>

lemma first_seen_append_prefix:
  "\<exists>zs. first_seen (xs @ ys) = first_seen xs @ zs"
proof (induction ys rule: rev_induct)
  case Nil
  then show ?case by simp
next
  case (snoc y ys)
  then obtain zs where "first_seen (xs @ ys) = first_seen xs @ zs" by blast
  then show ?case
    using first_seen_snoc [of "xs @ ys" y] by (cases "y \<in> set (xs @ ys)") auto
qed

text \<open>
  C5. The accumulators stand in the table, and their codes in both parts of the report,
  in the order in which the codes were first seen in the input (the table holds the
  first \<open>n\<close> distinct codes). Consuming further records keeps the codes already in the
  table at their positions: the old list of codes is an initial part of the new one.
  For the whole program: when \<open>main\<close> reaches its report, the codes of the report are
  the first-seen order of the codes of the records decoded from the buffers of all
  files, the files taken in the order of the arguments.
\<close>

theorem discovery_order:
  "map code (found_states (consume_records n records (replicate n None)) n) =
     take n (first_seen (map code records)) \<and>
   fst (print_report (consume_records n records (replicate n None)) n) =
     take n (first_seen (map code records)) \<and>
   map rb_code (snd (print_report (consume_records n records (replicate n None)) n)) =
     take n (first_seen (map code records)) \<and>
   take (length (found_states (consume_records n records (replicate n None)) n))
     (map code
        (found_states
           (consume_records n further (consume_records n records (replicate n None))) n)) =
     map code (found_states (consume_records n records (replicate n None)) n) \<and>
   (case climate_main atof (map Some contents) of
      Inl e \<Rightarrow> True
    | Inr report \<Rightarrow>
        (\<exists>rs. decode_lines atof (concat (map file_lines contents)) = Inr rs \<and>
           fst report = take NUM_STATES (first_seen (map code rs)) \<and>
           map rb_code (snd report) = fst report))"
proof -
  have codes: "map code (found_states (consume_records n rs (replicate n None)) n) =
     take n (first_seen (map code rs))" for rs
    by (rule table_shape(2))
  obtain zs where zs: "first_seen (map code records @ map code further) =
      first_seen (map code records) @ zs"
    using first_seen_append_prefix by blast
  have len: "length (found_states (consume_records n records (replicate n None)) n) =
      min n (length (first_seen (map code records)))"
    using arg_cong [OF codes [of records], of length] by simp
  have "take (min n (length (first_seen (map code records))))
          (take n (first_seen (map code records) @ zs)) =
        take n (first_seen (map code records))"
    by (simp add: min_def)
  then have later: "take (length (found_states (consume_records n records (replicate n None)) n))
     (map code (found_states (consume_records n (records @ further) (replicate n None)) n)) =
     map code (found_states (consume_records n records (replicate n None)) n)"
    unfolding codes len by (simp add: zs)
  have rb: "map (rb_code \<circ> report_block_of) xs = map code xs" for xs
    by (simp add: report_block_of_def)
  have prog: "case climate_main atof (map Some contents) of
      Inl e \<Rightarrow> True
    | Inr report \<Rightarrow>
        (\<exists>rs. decode_lines atof (concat (map file_lines contents)) = Inr rs \<and>
           fst report = take NUM_STATES (first_seen (map code rs)) \<and>
           map rb_code (snd report) = fst report)"
    by (auto simp: climate_main_decode_lines print_report_def rb table_shape(2)
        split: sum.splits)
  have "map code (found_states (consume_records n records (replicate n None)) n) =
     take n (first_seen (map code records)) \<and>
   fst (print_report (consume_records n records (replicate n None)) n) =
     take n (first_seen (map code records)) \<and>
   map rb_code (snd (print_report (consume_records n records (replicate n None)) n)) =
     take n (first_seen (map code records)) \<and>
   take (length (found_states (consume_records n records (replicate n None)) n))
     (map code
        (found_states
           (consume_records n further (consume_records n records (replicate n None))) n)) =
     map code (found_states (consume_records n records (replicate n None)) n)"
    using codes [of records] later
    by (simp add: print_report_def consume_records_append rb)
  with prog show ?thesis
    by blast
qed

text \<open>
  Records of WA followed by a record of TN are reported as WA, TN; and so are a file
  with a line of WA followed by a file with a line of TN, through \<open>main\<close>.
\<close>

lemma decode_wa_tn_lines:
  "decode_lines atof_dec (concat (map file_lines [wa_line, tn_line])) =
     Inr [\<lparr> code = ''WA'', num_records = 1, temp = 80.33, humidity = 50, max_temp = 80.33,
             max_temp_date = 1000, min_temp = 80.33, min_temp_date = 1000,
             lightning_strikes = 0, snow = 0, cloud_cover = 10, pressure = 101325 \<rparr>,
          \<lparr> code = ''TN'', num_records = 1, temp = 80.33, humidity = 60, max_temp = 80.33,
             max_temp_date = 2000, min_temp = 80.33, min_temp_date = 2000,
             lightning_strikes = 1, snow = 0, cloud_cover = 20, pressure = 101300 \<rparr>]"
proof -
  have fl: "file_lines wa_line = [wa_line]" "file_lines tn_line = [tn_line]"
    by code_simp+
  have tk: "tokenize wa_line =
     [Some ''WA'', Some ''1000000'', Some ''gh3'', Some ''50'', Some ''0'', Some ''10'',
      Some ''0'', Some ''101325'', Some ''300.0'']"
    "tokenize tn_line =
     [Some ''TN'', Some ''2000000'', Some ''gh4'', Some ''60'', Some ''0'', Some ''20'',
      Some ''1'', Some ''101300'', Some ''300.0'']"
    by code_simp+
  show ?thesis
    by (simp add: fl tk decode_record_def atof_dec_values c_trunc_def)
qed

theorem discovery_order_witness:
  "fst (print_report
     (consume_records 3 [sample 1000 50 ''WA'', sample 2000 40 ''WA'', sample 3000 60 ''TN'']
        (replicate 3 None)) 3) =
   [''WA'', ''TN''] \<and>
   (\<exists>blocks. climate_main atof_dec [Some wa_line, Some tn_line] = Inr ([''WA'', ''TN''], blocks))"
proof -
  note inst = discovery_order
    [of 3 "[sample 1000 50 ''WA'', sample 2000 40 ''WA'', sample 3000 60 ''TN'']" "[]"
      atof_dec "[wa_line, tn_line]"]
  have "take 3 (first_seen [''WA'', ''WA'', ''TN'']) = [''WA'', ''TN'']"
    by (simp add: first_seen_def)
  with inst have a: "fst (print_report
     (consume_records 3 [sample 1000 50 ''WA'', sample 2000 40 ''WA'', sample 3000 60 ''TN'']
        (replicate 3 None)) 3) = [''WA'', ''TN'']"
    by (simp add: sample_def)
  have "\<exists>report. climate_main atof_dec (map Some [wa_line, tn_line]) = Inr report"
    unfolding climate_main_decode_lines decode_wa_tn_lines by simp
  then obtain report where r: "climate_main atof_dec (map Some [wa_line, tn_line]) = Inr report"
    by blast
  from inst have "case climate_main atof_dec (map Some [wa_line, tn_line]) of
      Inl e \<Rightarrow> True
    | Inr report \<Rightarrow>
        (\<exists>rs. decode_lines atof_dec (concat (map file_lines [wa_line, tn_line])) = Inr rs \<and>
           fst report = take NUM_STATES (first_seen (map code rs)) \<and>
           map rb_code (snd report) = fst report)"
    by blast
  then have "\<exists>rs. decode_lines atof_dec (concat (map file_lines [wa_line, tn_line])) = Inr rs \<and>
      fst report = take NUM_STATES (first_seen (map code rs))"
    unfolding r by auto
  then have "fst report = take NUM_STATES (first_seen [''WA'', ''TN''])"
    unfolding decode_wa_tn_lines by auto
  then have "fst report = [''WA'', ''TN'']"
    by (simp add: first_seen_def NUM_STATES_def)
  with r have "climate_main atof_dec [Some wa_line, Some tn_line] = Inr ([''WA'', ''TN''], snd report)"
    by (cases report) simp
  with a show ?thesis
    by blast
qed

subsection \<open>C6: Kelvin to Fahrenheit\<close>

text \<open>
  C6. In every decoded record the temperature is the value of field 8 converted by
  \<open>F = K * 9 / 5 - 459.67\<close>, and the record's \<open>max_temp\<close> and \<open>min_temp\<close> hold the same
  value. An update uses this one value for the sum of temperatures, for the comparison
  and replacement of the maximum and for those of the minimum.
\<close>

theorem kelvin_to_fahrenheit:
  assumes "decode_record atof tokenList = Inr state"
  shows "(\<exists>k. tokenList ! 8 = Some k \<and> temp state = atof k * 9 / 5 - 459.67) \<and>
         max_temp state = temp state \<and>
         min_temp state = temp state \<and>
         temp (update_state s state) = temp s + temp state \<and>
         max_temp (update_state s state) =
           (if max_temp s \<le> temp state then temp state else max_temp s) \<and>
         min_temp (update_state s state) =
           (if min_temp s \<ge> temp state then temp state else min_temp s)"
proof -
  note d = decode_record_Inr [OF assms]
  from d(2) obtain k where k: "tokenList ! 8 = Some k"
    by auto
  have t: "temp state = atof k * 9 / 5 - 459.67"
    using arg_cong [OF d(1), of temp] k by simp
  moreover have "max_temp state = temp state"
    using arg_cong [OF d(1), of max_temp] k t by simp
  moreover have "min_temp state = temp state"
    using arg_cong [OF d(1), of min_temp] k t by simp
  ultimately show ?thesis
    using k by (simp add: max_temp_update_state min_temp_update_state sums_update_state)
qed

text \<open>The first example line: 300 Kelvin are 80.33 Fahrenheit.\<close>

theorem kelvin_to_fahrenheit_witness:
  "decode_record atof_dec (tokenize ca_line_1) =
     Inr \<lparr> code = ''CA'', num_records = 1, temp = 80.33, humidity = 50, max_temp = 80.33,
           max_temp_date = 1000, min_temp = 80.33, min_temp_date = 1000,
           lightning_strikes = 0, snow = 0, cloud_cover = 10, pressure = 101325 \<rparr> \<and>
   tokenize ca_line_1 ! 8 = Some ''300.0'' \<and>
   atof_dec ''300.0'' * 9 / 5 - 459.67 = 80.33 \<and>
   temp (update_state (sample 500 70 ''CA'')
     \<lparr> code = ''CA'', num_records = 1, temp = 80.33, humidity = 50, max_temp = 80.33,
       max_temp_date = 1000, min_temp = 80.33, min_temp_date = 1000,
       lightning_strikes = 0, snow = 0, cloud_cover = 10, pressure = 101325 \<rparr>) = 150.33"
proof -
  have "atof_dec ''300.0'' * 9 / 5 - 459.67 = 80.33"
    by (simp add: atof_dec_values)
  moreover have "tokenize ca_line_1 ! 8 = Some ''300.0''"
    by (simp add: tokenize_ca_line_1)
  moreover from kelvin_to_fahrenheit [OF decode_ca_line_1, of "sample 500 70 ''CA''"]
  have "temp (update_state (sample 500 70 ''CA'')
     \<lparr> code = ''CA'', num_records = 1, temp = 80.33, humidity = 50, max_temp = 80.33,
       max_temp_date = 1000, min_temp = 80.33, min_temp_date = 1000,
       lightning_strikes = 0, snow = 0, cloud_cover = 10, pressure = 101325 \<rparr>) = 150.33"
    by (simp add: sample_def)
  ultimately show ?thesis
    using decode_ca_line_1 by blast
qed

subsection \<open>C7: a new accumulator\<close>

text \<open>
  C7 says that every record whose code has no accumulator gets a new one. When the
  fifty slots are taken this is not so: the record of DC has no accumulator before
  and the table is the same after it.
\<close>

theorem no_accumulator_when_full:
  "code (sample 1000 50 ''DC'') \<notin>
     set (map code (found_states
       (consume_records NUM_STATES (map (sample 1000 50) fifty_states) (replicate NUM_STATES None))
       NUM_STATES)) \<and>
   for_states 0 NUM_STATES (sample 1000 50 ''DC'')
     (consume_records NUM_STATES (map (sample 1000 50) fifty_states) (replicate NUM_STATES None)) =
   consume_records NUM_STATES (map (sample 1000 50) fifty_states) (replicate NUM_STATES None)"
proof -
  let ?T = "consume_records NUM_STATES (map (sample 1000 50) fifty_states) (replicate NUM_STATES None)"
  have d: "distinct fifty_states" and dc: "''DC'' \<notin> set fifty_states"
    using fifty_states_facts(1) by simp_all
  have "map code (found_states ?T NUM_STATES) = take NUM_STATES (first_seen fifty_states)"
    by (simp only: table_shape(2) map_code_sample)
  then have codes: "map code (found_states ?T NUM_STATES) = fifty_states"
    by (simp add: first_seen_distinct [OF d] fifty_states_facts(2) NUM_STATES_def)
  then have miss: "code (sample 1000 50 ''DC'') \<notin> code ` set (found_states ?T NUM_STATES)"
    using dc by (metis code_sample set_map)
  have "length (found_states ?T NUM_STATES) = 50"
    using arg_cong [OF codes, of length] by (simp add: fifty_states_facts(2))
  then have full: "\<not> length (found_states ?T NUM_STATES) < NUM_STATES"
    by (simp add: NUM_STATES_def)
  from consume_step(3) [OF miss full] miss show ?thesis
    by simp
qed

text \<open>
  C7, amended. For a line that decodes to a record whose code has no accumulator, while
  the table has a free slot (fewer than \<open>n\<close> accumulators): the record itself becomes
  the new accumulator, at the end of the accumulators in discovery order. Its count is
  1, its sums and counters are the single values of the line, its \<open>max_temp\<close> and
  \<open>min_temp\<close> are its temperature and both dates are its timestamp.
\<close>

theorem new_state_appended:
  assumes "decode_record atof (tokenize line) = Inr state"
    and "code state \<notin>
      set (map code (found_states (consume_records n records (replicate n None)) n))"
    and "length (found_states (consume_records n records (replicate n None)) n) < n"
  shows "analyze_line atof n line (consume_records n records (replicate n None)) =
           Inr (for_states 0 n state (consume_records n records (replicate n None))) \<and>
         found_states (for_states 0 n state (consume_records n records (replicate n None))) n =
           found_states (consume_records n records (replicate n None)) n @ [state] \<and>
         num_records state = 1 \<and>
         humidity state = atof (the (tokenize line ! 3)) \<and>
         temp state = atof (the (tokenize line ! 8)) * 9 / 5 - 459.67 \<and>
         cloud_cover state = atof (the (tokenize line ! 5)) \<and>
         pressure state = atof (the (tokenize line ! 7)) \<and>
         snow state = c_trunc (atof (the (tokenize line ! 4))) \<and>
         lightning_strikes state = c_trunc (atof (the (tokenize line ! 6))) \<and>
         max_temp state = temp state \<and>
         min_temp state = temp state \<and>
         max_temp_date state = c_trunc (atof (the (tokenize line ! 1)) / 1000) \<and>
         min_temp_date state = c_trunc (atof (the (tokenize line ! 1)) / 1000)"
proof -
  let ?T = "consume_records n records (replicate n None)"
  have miss: "code state \<notin> code ` set (found_states ?T n)"
    using assms(2) by simp
  note app = consume_step(2) [OF miss assms(3)]
  note d = decode_record_Inr(1) [OF assms(1)]
  have fields: "num_records state = 1"
    "humidity state = atof (the (tokenize line ! 3))"
    "temp state = atof (the (tokenize line ! 8)) * 9 / 5 - 459.67"
    "cloud_cover state = atof (the (tokenize line ! 5))"
    "pressure state = atof (the (tokenize line ! 7))"
    "snow state = c_trunc (atof (the (tokenize line ! 4)))"
    "lightning_strikes state = c_trunc (atof (the (tokenize line ! 6)))"
    "max_temp state = atof (the (tokenize line ! 8)) * 9 / 5 - 459.67"
    "min_temp state = atof (the (tokenize line ! 8)) * 9 / 5 - 459.67"
    "max_temp_date state = c_trunc (atof (the (tokenize line ! 1)) / 1000)"
    "min_temp_date state = c_trunc (atof (the (tokenize line ! 1)) / 1000)"
    using arg_cong [OF d, of num_records] arg_cong [OF d, of humidity] arg_cong [OF d, of temp]
      arg_cong [OF d, of cloud_cover] arg_cong [OF d, of pressure] arg_cong [OF d, of snow]
      arg_cong [OF d, of lightning_strikes] arg_cong [OF d, of max_temp]
      arg_cong [OF d, of min_temp] arg_cong [OF d, of max_temp_date]
      arg_cong [OF d, of min_temp_date]
    by simp_all
  have "analyze_line atof n line ?T = Inr (for_states 0 n state ?T)"
    by (simp add: analyze_line_def assms(1))
  with app fields show ?thesis
    by simp
qed

text \<open>The first example line on a table of two slots that holds WA.\<close>

theorem new_state_appended_witness:
  "decode_record atof_dec (tokenize ca_line_1) =
     Inr \<lparr> code = ''CA'', num_records = 1, temp = 80.33, humidity = 50, max_temp = 80.33,
           max_temp_date = 1000, min_temp = 80.33, min_temp_date = 1000,
           lightning_strikes = 0, snow = 0, cloud_cover = 10, pressure = 101325 \<rparr> \<and>
   found_states (consume_records 2 [sample 500 40 ''WA''] (replicate 2 None)) 2 =
     [sample 500 40 ''WA''] \<and>
   found_states
     (for_states 0 2
        \<lparr> code = ''CA'', num_records = 1, temp = 80.33, humidity = 50, max_temp = 80.33,
          max_temp_date = 1000, min_temp = 80.33, min_temp_date = 1000,
          lightning_strikes = 0, snow = 0, cloud_cover = 10, pressure = 101325 \<rparr>
        (consume_records 2 [sample 500 40 ''WA''] (replicate 2 None))) 2 =
     [sample 500 40 ''WA'',
      \<lparr> code = ''CA'', num_records = 1, temp = 80.33, humidity = 50, max_temp = 80.33,
        max_temp_date = 1000, min_temp = 80.33, min_temp_date = 1000,
        lightning_strikes = 0, snow = 0, cloud_cover = 10, pressure = 101325 \<rparr>]"
proof -
  let ?T = "consume_records 2 [sample 500 40 ''WA''] (replicate 2 None)"
  have tbl: "found_states ?T 2 = [sample 500 40 ''WA'']"
    by (simp add: consume_records_def for_states_scan_len numeral_2_eq_2 found_states_def
        List.map_filter_simps)
  have miss: "code \<lparr> code = ''CA'', num_records = 1, temp = 80.33, humidity = 50,
      max_temp = 80.33, max_temp_date = 1000, min_temp = 80.33, min_temp_date = 1000,
      lightning_strikes = 0, snow = 0, cloud_cover = 10, pressure = 101325 \<rparr>
      \<notin> set (map code (found_states ?T 2))"
    unfolding tbl by simp
  have free: "length (found_states ?T 2) < 2"
    unfolding tbl by simp
  from new_state_appended [OF decode_ca_line_1 miss free]
  show ?thesis
    using decode_ca_line_1 unfolding tbl by simp
qed

subsection \<open>C8: averages\<close>

text \<open>
  C8. The report computes each average as the stored sum divided by the stored count.
  For every accumulator of a table reached from fewer than \<open>2 ^ 64\<close> records, the count
  is the number of records of its code and is not zero, the sums are the sums over
  these records, and each reported average (humidity, temperature, cloud cover) times
  the count is the stored sum. (Over the reals: the rounding of \<^verbatim>\<open>long double\<close> is
  outside the model.)
\<close>

theorem averages_from_sums:
  assumes "list_all fresh_record records"
    and "length records < 2 ^ 64"
    and "a \<in> set (found_states (consume_records n records (replicate n None)) n)"
  shows "unat (num_records a) = length (records_of (code a) records) \<and>
         0 < unat (num_records a) \<and>
         humidity a = sum_list (map humidity (records_of (code a) records)) \<and>
         temp a = sum_list (map temp (records_of (code a) records)) \<and>
         cloud_cover a = sum_list (map cloud_cover (records_of (code a) records)) \<and>
         rb_avg_humidity (report_block_of a) * real (unat (num_records a)) = humidity a \<and>
         rb_avg_temp (report_block_of a) * real (unat (num_records a)) = temp a \<and>
         rb_avg_cloud_cover (report_block_of a) * real (unat (num_records a)) = cloud_cover a \<and>
         report_block_of a \<in>
           set (snd (print_report (consume_records n records (replicate n None)) n))"
proof -
  let ?rs = "records_of (code a) records"
  from found_states_cases [OF assms(3)]
  have a: "fold_records ?rs = Some a" and ne: "?rs \<noteq> []"
    by simp_all
  have "hd ?rs \<in> set ?rs" using ne by simp
  then have "hd ?rs \<in> set records" by (simp add: records_of_def)
  with assms(1) have one: "num_records (hd ?rs) = 1"
    by (simp add: list_all_iff fresh_record_def)
  note sums = fold_records_sums [OF a one]
  have "length ?rs \<le> length records"
    by (simp add: records_of_def)
  with assms(2) have small: "length ?rs < 2 ^ LENGTH(64)"
    by simp
  have cnt: "unat (num_records a) = length ?rs"
    using sums of_nat_inverse [OF refl small] by simp
  with ne have pos: "0 < unat (num_records a)"
    by simp
  have blk: "report_block_of a \<in>
      set (snd (print_report (consume_records n records (replicate n None)) n))"
    using assms(3) by (simp add: print_report_def)
  from pos have "real (unat (num_records a)) \<noteq> 0"
    by (simp only: of_nat_eq_0_iff)
  then show ?thesis
    using cnt pos sums blk by (simp add: report_block_of_def)
qed

text \<open>Three records of CA with temperatures 80, 70 and 60: the average times 3 is 210.\<close>

theorem averages_from_sums_witness:
  "list_all fresh_record [sample 1000 80 ''CA'', sample 2000 70 ''CA'', sample 3000 60 ''CA''] \<and>
   length [sample 1000 80 ''CA'', sample 2000 70 ''CA'', sample 3000 60 ''CA''] < 2 ^ 64 \<and>
   found_states
     (consume_records 2 [sample 1000 80 ''CA'', sample 2000 70 ''CA'', sample 3000 60 ''CA'']
        (replicate 2 None)) 2 =
     [(sample 3000 60 ''CA'') \<lparr> num_records := 3, temp := 210, humidity := 150,
         max_temp := 80, max_temp_date := 1000, cloud_cover := 30, pressure := 303975 \<rparr>] \<and>
   rb_avg_temp (report_block_of ((sample 3000 60 ''CA'') \<lparr> num_records := 3, temp := 210,
         humidity := 150, max_temp := 80, max_temp_date := 1000, cloud_cover := 30,
         pressure := 303975 \<rparr>)) * real (unat (3 :: 64 word)) = 210"
proof -
  let ?rs = "[sample 1000 80 ''CA'', sample 2000 70 ''CA'', sample 3000 60 ''CA'']"
  let ?a = "(sample 3000 60 ''CA'') \<lparr> num_records := 3, temp := 210, humidity := 150,
         max_temp := 80, max_temp_date := 1000, cloud_cover := 30, pressure := 303975 \<rparr>"
  have fresh: "list_all fresh_record ?rs"
    by (simp add: fresh_record_def sample_def)
  have len: "length ?rs < 2 ^ 64"
    by simp
  have tbl: "found_states (consume_records 2 ?rs (replicate 2 None)) 2 = [?a]"
    by (simp add: consume_records_def for_states_scan_len numeral_2_eq_2 found_states_def
        List.map_filter_simps sample_def update_state_def Let_def)
  then have mem: "?a \<in> set (found_states (consume_records 2 ?rs (replicate 2 None)) 2)"
    by simp
  from averages_from_sums [OF fresh len mem]
  have "rb_avg_temp (report_block_of ?a) * real (unat (num_records ?a)) = temp ?a"
    by blast
  then have "rb_avg_temp (report_block_of ?a) * real (unat (3 :: 64 word)) = 210"
    by (simp add: sample_def)
  then show ?thesis
    using fresh len tbl by blast
qed

subsection \<open>C9: pressure\<close>

text \<open>
  C9 says that the pressure of a record is not folded into any accumulator state. The
  program does fold it (line 181, \<^verbatim>\<open>states[i]->pressure += state->pressure\<close>): after the
  first line the accumulator of CA holds the pressure 101325, after the second line,
  whose pressure is 101300, it holds 202625.
\<close>

theorem pressure_is_accumulated:
  "analyze_file atof_dec 2 ca_line_1 [None, None] =
     Inr [Some \<lparr> code = ''CA'', num_records = 1, temp = 80.33, humidity = 50,
                 max_temp = 80.33, max_temp_date = 1000, min_temp = 80.33,
                 min_temp_date = 1000, lightning_strikes = 0, snow = 0, cloud_cover = 10,
                 pressure = 101325 \<rparr>, None] \<and>
   analyze_file atof_dec 2 (ca_line_1 @ ca_line_2) [None, None] =
     Inr [Some \<lparr> code = ''CA'', num_records = 2, temp = 160.66, humidity = 110,
                 max_temp = 80.33, max_temp_date = 2000, min_temp = 80.33,
                 min_temp_date = 2000, lightning_strikes = 1, snow = 0, cloud_cover = 30,
                 pressure = 202625 \<rparr>, None]"
proof -
  have eof: "analyze_file atof_dec 2 [] T = Inr T" for T
    by (subst analyze_file.simps) (simp add: fgets_def)
  have l1: "analyze_line atof_dec 2 ca_line_1 [None, None] =
     Inr [Some \<lparr> code = ''CA'', num_records = 1, temp = 80.33, humidity = 50,
                 max_temp = 80.33, max_temp_date = 1000, min_temp = 80.33,
                 min_temp_date = 1000, lightning_strikes = 0, snow = 0, cloud_cover = 10,
                 pressure = 101325 \<rparr>, None]"
    by (simp add: analyze_line_def decode_ca_line_1 for_states_scan_len)
  have l2: "analyze_line atof_dec 2 ca_line_2
      [Some \<lparr> code = ''CA'', num_records = 1, temp = 80.33, humidity = 50,
                 max_temp = 80.33, max_temp_date = 1000, min_temp = 80.33,
                 min_temp_date = 1000, lightning_strikes = 0, snow = 0, cloud_cover = 10,
                 pressure = 101325 \<rparr>, None] =
     Inr [Some \<lparr> code = ''CA'', num_records = 2, temp = 160.66, humidity = 110,
                 max_temp = 80.33, max_temp_date = 2000, min_temp = 80.33,
                 min_temp_date = 2000, lightning_strikes = 1, snow = 0, cloud_cover = 30,
                 pressure = 202625 \<rparr>, None]"
    by (simp add: analyze_line_def decode_ca_line_2 for_states_scan_len update_state_def Let_def)
  have f2: "analyze_file atof_dec 2 ca_line_2 T =
      (case analyze_line atof_dec 2 ca_line_2 T of Inl e \<Rightarrow> Inl e | Inr T' \<Rightarrow> Inr T')" for T
    by (subst analyze_file.simps) (simp add: fgets_ca_lines eof split: sum.splits)
  have "analyze_file atof_dec 2 ca_line_1 [None, None] =
     Inr [Some \<lparr> code = ''CA'', num_records = 1, temp = 80.33, humidity = 50,
                 max_temp = 80.33, max_temp_date = 1000, min_temp = 80.33,
                 min_temp_date = 1000, lightning_strikes = 0, snow = 0, cloud_cover = 10,
                 pressure = 101325 \<rparr>, None]"
    by (subst analyze_file.simps) (simp add: fgets_ca_lines l1 eof)
  moreover have "analyze_file atof_dec 2 (ca_line_1 @ ca_line_2) [None, None] =
     Inr [Some \<lparr> code = ''CA'', num_records = 2, temp = 160.66, humidity = 110,
                 max_temp = 80.33, max_temp_date = 2000, min_temp = 80.33,
                 min_temp_date = 2000, lightning_strikes = 1, snow = 0, cloud_cover = 30,
                 pressure = 202625 \<rparr>, None]"
    by (subst analyze_file.simps) (simp add: fgets_ca_lines l1 f2 l2 [simplified])
  ultimately show ?thesis by blast
qed

lemma found_states_map:
  "found_states (map (map_option g) states) n = map g (found_states states n)"
proof -
  have "List.map_filter (\<lambda>p. p) (map (map_option g) xs) = map g (List.map_filter (\<lambda>p. p) xs)"
    for xs
    by (induction xs) (auto simp: List.map_filter_simps split: option.splits)
  then show ?thesis
    by (simp add: found_states_def take_map)
qed

text \<open>
  C9, amended. The pressure of field 7 is decoded into the record. Consuming a record
  into an existing accumulator adds the pressure of the record to the pressure of the
  accumulator, and the pressure of the record reaches no other field. The report does
  not depend on the pressures stored in the table.
\<close>

theorem pressure_summed_not_reported:
  "pressure (update_state s state) = pressure s + pressure state \<and>
   update_state s (state \<lparr> pressure := p \<rparr>) =
     (update_state s state) \<lparr> pressure := pressure s + p \<rparr> \<and>
   (case decode_record atof tokenList of
      Inl e \<Rightarrow> True
    | Inr r \<Rightarrow> pressure r = atof (the (tokenList ! 7))) \<and>
   print_report (map (map_option (pressure_update f)) states) n = print_report states n"
proof -
  have "report_block_of (pressure_update f a) = report_block_of a" for a
    by (simp add: report_block_of_def)
  then have "print_report (map (map_option (pressure_update f)) states) n = print_report states n"
    by (simp add: print_report_def found_states_map comp_def)
  moreover have "(case decode_record atof tokenList of
      Inl e \<Rightarrow> True
    | Inr r \<Rightarrow> pressure r = atof (the (tokenList ! 7)))"
    by (simp add: decode_record_def split: list.splits)
  ultimately show ?thesis
    by (simp add: update_state_def Let_def)
qed

theorem pressure_summed_not_reported_witness:
  "pressure (update_state (sample 1000 80 ''CA'') (sample 2000 70 ''CA'')) = 202650 \<and>
   print_report [Some ((sample 1000 80 ''CA'') \<lparr> pressure := 0 \<rparr>), None] 2 =
     print_report [Some (sample 1000 80 ''CA''), None] 2"
  using pressure_summed_not_reported
    [of "sample 1000 80 ''CA''" "sample 2000 70 ''CA''" 0 atof_dec "[]" "\<lambda>p. 0"
      "[Some (sample 1000 80 ''CA''), None]" 2]
  by (simp add: sample_def)

subsection \<open>C10: a line with more than nine fields\<close>

text \<open>
  On one buffer (what \<^verbatim>\<open>fgets\<close> returned) with more than nine tokens, the tokenizer
  collects the first nine and stops, all nine slots are assigned, and the outcome is
  that of any buffer with the same first nine tokens.
\<close>

lemma buffer_tokens_after_ninth:
  assumes "9 < length (all_tokens (c_str line))"
    and "9 \<le> length (all_tokens (c_str line'))"
    and "take 9 (all_tokens (c_str line')) = take 9 (all_tokens (c_str line))"
  shows "tokenize line = map Some (take 9 (all_tokens (c_str line))) \<and>
         (\<exists>state. decode_record atof (tokenize line) = Inr state \<and>
            analyze_line atof n line states = Inr (for_states 0 n state states)) \<and>
         analyze_line atof n line' states = analyze_line atof n line states"
proof -
  have t: "tokenize line = map Some (take 9 (all_tokens (c_str line)))"
    using assms(1) by (simp add: tokenize_all_tokens)
  have t': "tokenize line' = map Some (take 9 (all_tokens (c_str line')))"
    using assms(2) by (simp add: tokenize_all_tokens)
  from assms(1) have "9 \<le> length (all_tokens (c_str line))"
    by simp
  from decode_record_enough [OF this, of atof]
  obtain state where d: "decode_record atof (tokenize line) = Inr state"
    by blast
  then have "analyze_line atof n line states = Inr (for_states 0 n state states)"
    by (simp add: analyze_line_def)
  moreover have "analyze_line atof n line' states = analyze_line atof n line states"
    by (simp add: analyze_line_def t t' assms(3))
  ultimately show ?thesis
    using t d by blast
qed

text \<open>Lines of text with clean fields: how they are read and tokenized.\<close>

lemma strtok_Nil [simp]: "strtok [] = None"
  by (simp add: strtok_def)

lemma all_tokens_Nil [simp]: "all_tokens [] = []"
  by (subst all_tokens.simps) simp













end
